theory Spec2Isabelle
  imports Complex_Main "HOL-Library.Word" "HOL-Library.Multiset" "HOL-Library.Extended_Nat"
    "HOL-Library.Log_Nat"
begin

unbundle bit_operations_syntax

section \<open>Hybrid Zoo v3: RP2 delta codec and wavelet family selector\<close>

text \<open>
  The development follows \<^verbatim>\<open>hybrid_zoo_v3.py\<close>. A numpy float64 array is a list of
  reals (double arithmetic idealised as exact), a numpy float32 array is a list of 32-bit
  patterns, and a Python \<^verbatim>\<open>bytes\<close> object is a list of 8-bit characters. The detail
  arrays, which the thresholding can fill with NaN and negative zeros, carry these two
  special values beside the reals.
\<close>

subsection \<open>Python slicing\<close>

type_synonym bytes = string

definition clamp_index :: "nat \<Rightarrow> int \<Rightarrow> nat" where
  \<comment> \<open>How a slice bound is normalised: a negative bound counts from the end, and every
      bound is clamped to the range of the sequence.\<close>
  "clamp_index n i = (if i < 0 then nat (max (i + int n) 0) else min (nat i) n)"

definition py_slice :: "'a list \<Rightarrow> int \<Rightarrow> int \<Rightarrow> 'a list" where
  \<comment> \<open>\<^verbatim>\<open>xs[a:b]\<close>\<close>
  "py_slice xs a b =
     (let lo = clamp_index (length xs) a; hi = clamp_index (length xs) b
      in take (hi - lo) (drop lo xs))"

definition py_slice_to :: "'a list \<Rightarrow> int \<Rightarrow> 'a list" where
  \<comment> \<open>\<^verbatim>\<open>xs[:b]\<close>\<close>
  "py_slice_to xs b = take (clamp_index (length xs) b) xs"

definition py_slice_from :: "'a list \<Rightarrow> int \<Rightarrow> 'a list" where
  \<comment> \<open>\<^verbatim>\<open>xs[a:]\<close>\<close>
  "py_slice_from xs a = drop (clamp_index (length xs) a) xs"

subsection \<open>The symmetry gain estimate\<close>

definition np_var :: "real list \<Rightarrow> real" where
  \<comment> \<open>\<^verbatim>\<open>np.var\<close>: the mean of the squared deviations from the mean.\<close>
  "np_var xs =
     (let m = sum_list xs / real (length xs)
      in sum_list (map (\<lambda>x. (x - m)\<^sup>2) xs) / real (length xs))"

definition eg_left :: "real list \<Rightarrow> real list" where
  \<comment> \<open>\<^verbatim>\<open>left = data[:mid]\<close> with \<^verbatim>\<open>mid = n // 2\<close>\<close>
  "eg_left data = py_slice_to data (int (length data div 2))"

definition eg_right_f :: "real list \<Rightarrow> real list" where
  \<comment> \<open>\<^verbatim>\<open>right_f = -data[mid:mid+len(left)][::-1]\<close>\<close>
  "eg_right_f data =
     (let mid = length data div 2
      in map uminus (rev (py_slice data (int mid) (int (mid + length (eg_left data))))))"

definition estimate_gain :: "real list \<Rightarrow> real" where
  \<comment> \<open>\<^verbatim>\<open>MiniRP2._estimate_gain\<close>\<close>
  "estimate_gain data =
     (let n = length data in
      if n < 512 then - 1
      else
        let left = eg_left data; right_f = eg_right_f data in
        if length left \<noteq> length right_f then - 1
        else
          let delta = map2 (-) left right_f;
              delta_var = np_var delta;
              data_var = np_var data
          in if delta_var \<ge> data_var then - 1
             else
               let ratio = delta_var / (data_var + 1 / 10 ^ 10)
               in real n * 32 * (1 - ratio) * (1 / 2) - 2000)"

subsection \<open>Errors\<close>

datatype error =
    TypeError | ValueError | KeyError | IndexError | OverflowError
  | JSONDecodeError | BackendError | TransformError | RuntimeError string
  | NotModelled
  \<comment> \<open>The constructors are the Python exceptions the code can raise; \<open>BackendError\<close> is
      whatever the compressor raises on a corrupt stream. \<open>NotModelled\<close> marks inputs on
      which the embedding stops short of Python (floats and non-Latin-1 escapes in JSON,
      non-ASCII header bytes, nesting beyond the parser's fuel).\<close>

subsection \<open>Integers and float32 arrays as bytes\<close>

definition le4 :: "nat \<Rightarrow> bytes" where
  \<comment> \<open>the four little-endian bytes of a number below \<open>2 ^ 32\<close>\<close>
  "le4 n = [char_of n, char_of (n div 256), char_of (n div 65536), char_of (n div 16777216)]"

definition to_bytes4 :: "nat \<Rightarrow> error + bytes" where
  \<comment> \<open>\<^verbatim>\<open>n.to_bytes(4, 'little')\<close>\<close>
  "to_bytes4 n = (if n < 2 ^ 32 then Inr (le4 n) else Inl OverflowError)"

fun from_bytes_le :: "bytes \<Rightarrow> nat" where
  \<comment> \<open>\<^verbatim>\<open>int.from_bytes(b, 'little')\<close>\<close>
  "from_bytes_le [] = 0"
| "from_bytes_le (c # cs) = of_char c + 256 * from_bytes_le cs"

type_synonym f32 = "32 word"

definition f32_tobytes :: "f32 list \<Rightarrow> bytes" where
  \<comment> \<open>\<^verbatim>\<open>.tobytes()\<close> of a float32 array\<close>
  "f32_tobytes ws = concat (map (\<lambda>w. le4 (unat w)) ws)"

fun chunks4 :: "bytes \<Rightarrow> bytes list" where
  "chunks4 (a # b # c # d # rest) = [a, b, c, d] # chunks4 rest"
| "chunks4 _ = []"

definition np_frombuffer_f32 :: "bytes \<Rightarrow> error + f32 list" where
  \<comment> \<open>\<^verbatim>\<open>np.frombuffer(b, np.float32)\<close>: the buffer size must be a multiple of 4.\<close>
  "np_frombuffer_f32 b =
     (if length b mod 4 \<noteq> 0 then Inl ValueError
      else Inr (map (\<lambda>c. word_of_nat (from_bytes_le c)) (chunks4 b)))"

subsection \<open>Binary32 arithmetic\<close>

text \<open>
  \<^verbatim>\<open>astype(np.float32)\<close> rounds a double to the nearest binary32 value, ties to even,
  and overflows to infinity. Sums of finite binary32 values are exact reals, so float32
  subtraction is the rounding of the exact difference. NaN payloads are not tracked: an
  invalid operation yields the canonical quiet NaN.
\<close>

definition round_half_even :: "real \<Rightarrow> int" where
  "round_half_even x =
     (let f = \<lfloor>x\<rfloor>; r = x - of_int f
      in if r < 1 / 2 then f else if 1 / 2 < r then f + 1 else if even f then f else f + 1)"

definition ilog2 :: "real \<Rightarrow> int" where
  \<comment> \<open>\<open>\<lfloor>log\<^sub>2 a\<rfloor>\<close> for \<open>a > 0\<close>, by bit lengths\<close>
  "ilog2 a =
     (if 1 \<le> a then int (floorlog 2 (nat \<lfloor>a\<rfloor>)) - 1
      else - int (floorlog 2 (nat \<lceil>1 / a\<rceil> - 1)))"

definition pow2 :: "int \<Rightarrow> real" where
  "pow2 k = (if 0 \<le> k then 2 ^ nat k else 1 / 2 ^ nat (- k))"

definition f32_round :: "real \<Rightarrow> f32" where
  \<comment> \<open>\<^verbatim>\<open>astype(np.float32)\<close> of one element. With exponent \<open>e\<close> (at least \<open>-126\<close>) and
      significand \<open>m\<close> in units of \<open>2 ^ (e - 23)\<close>, the magnitude bits are
      \<open>(e + 126) * 2 ^ 23 + m\<close>: this covers subnormals and the carry into the next binade.\<close>
  "f32_round x =
     (if x = 0 then 0
      else
        let a = \<bar>x\<bar>;
            e = max (ilog2 a) (- 126);
            m = round_half_even (a / pow2 (e - 23));
            mag = min ((e + 126) * 2 ^ 23 + m) 0x7F800000
        in word_of_int mag + (if x < 0 then 0x80000000 else 0))"

definition f32_biased_exp :: "f32 \<Rightarrow> nat" where
  "f32_biased_exp w = (unat w div 2 ^ 23) mod 256"

definition f32_mantissa :: "f32 \<Rightarrow> nat" where
  "f32_mantissa w = unat w mod 2 ^ 23"

definition f32_negative :: "f32 \<Rightarrow> bool" where
  "f32_negative w = (2 ^ 31 \<le> unat w)"

definition f32_is_nan :: "f32 \<Rightarrow> bool" where
  "f32_is_nan w = (f32_biased_exp w = 255 \<and> f32_mantissa w \<noteq> 0)"

definition f32_is_inf :: "f32 \<Rightarrow> bool" where
  "f32_is_inf w = (f32_biased_exp w = 255 \<and> f32_mantissa w = 0)"

definition f32_val :: "f32 \<Rightarrow> real" where
  \<comment> \<open>the value of a finite pattern\<close>
  "f32_val w =
     (let be = f32_biased_exp w; m = f32_mantissa w;
          mag = (if be = 0 then real m * pow2 (- 149)
                 else real (2 ^ 23 + m) * pow2 (int be - 150))
      in if f32_negative w then - mag else mag)"

definition f32_neg :: "f32 \<Rightarrow> f32" where
  \<comment> \<open>unary minus flips the sign bit\<close>
  "f32_neg w = w XOR 0x80000000"

definition f32_sub :: "f32 \<Rightarrow> f32 \<Rightarrow> f32" where
  "f32_sub a b =
     (if f32_is_nan a \<or> f32_is_nan b then 0x7FC00000
      else if f32_is_inf a then
        (if f32_is_inf b \<and> f32_negative a = f32_negative b then 0x7FC00000 else a)
      else if f32_is_inf b then f32_neg b
      else
        let r = f32_val a - f32_val b
        in if r = 0 then (if a = 0x80000000 \<and> b = 0 then 0x80000000 else 0)
           else f32_round r)"

definition np_sub_f32 :: "f32 list \<Rightarrow> f32 list \<Rightarrow> error + f32 list" where
  \<comment> \<open>\<^verbatim>\<open>a - b\<close> on float32 arrays, with numpy's broadcasting of a one-element array\<close>
  "np_sub_f32 a b =
     (if length a = length b then Inr (map2 f32_sub a b)
      else if length b = 1 then Inr (map (\<lambda>x. f32_sub x (hd b)) a)
      else if length a = 1 then Inr (map (\<lambda>y. f32_sub (hd a) y) b)
      else Inl ValueError)"

subsection \<open>Python values and JSON\<close>

datatype pyval =
    PNone | PBool bool | PInt int | PStr string | PBytes bytes
  | PList "pyval list" | PDict "(string \<times> pyval) list"

definition digit_char :: "nat \<Rightarrow> char" where
  "digit_char d = char_of (48 + d)"

fun digits10 :: "nat \<Rightarrow> string" where
  "digits10 n = (if n < 10 then [digit_char n] else digits10 (n div 10) @ [digit_char (n mod 10)])"

declare digits10.simps [simp del]

definition py_str_int :: "int \<Rightarrow> string" where
  \<comment> \<open>\<^verbatim>\<open>str(i)\<close>\<close>
  "py_str_int i = (if i < 0 then CHR ''-'' # digits10 (nat (- i)) else digits10 (nat i))"

definition hex_digit :: "nat \<Rightarrow> char" where
  "hex_digit d = (if d < 10 then char_of (48 + d) else char_of (87 + d))"

definition repr_byte :: "char \<Rightarrow> char \<Rightarrow> string" where
  "repr_byte quote c =
     (if c = quote \<or> c = CHR 0x5C then [CHR 0x5C, c]
      else if c = CHR 0x09 then [CHR 0x5C, CHR ''t'']
      else if c = CHR 0x0A then [CHR 0x5C, CHR ''n'']
      else if c = CHR 0x0D then [CHR 0x5C, CHR ''r'']
      else if (of_char c :: nat) < 32 \<or> 127 \<le> (of_char c :: nat)
        then [CHR 0x5C, CHR ''x'', hex_digit (of_char c div 16), hex_digit (of_char c mod 16)]
      else [c])"

definition py_bytes_repr :: "bytes \<Rightarrow> string" where
  \<comment> \<open>\<^verbatim>\<open>str(b)\<close> of a bytes object, which is its \<^verbatim>\<open>repr\<close>: the text \<^verbatim>\<open>b'...'\<close>, with
      double quotes when the bytes hold a single quote and no double quote.\<close>
  "py_bytes_repr b =
     (let quote = (if CHR 0x27 \<in> set b \<and> CHR 0x22 \<notin> set b then CHR 0x22 else CHR 0x27)
      in CHR ''b'' # quote # concat (map (repr_byte quote) b) @ [quote])"

definition json_escape_char :: "char \<Rightarrow> string" where
  \<comment> \<open>\<^verbatim>\<open>ensure_ascii\<close> escaping of one character of a string\<close>
  "json_escape_char c =
     (if c = CHR 0x22 then [CHR 0x5C, CHR 0x22]
      else if c = CHR 0x5C then [CHR 0x5C, CHR 0x5C]
      else if c = CHR 0x0A then [CHR 0x5C, CHR ''n'']
      else if c = CHR 0x0D then [CHR 0x5C, CHR ''r'']
      else if c = CHR 0x09 then [CHR 0x5C, CHR ''t'']
      else if c = CHR 0x08 then [CHR 0x5C, CHR ''b'']
      else if c = CHR 0x0C then [CHR 0x5C, CHR ''f'']
      else if (of_char c :: nat) < 32 \<or> 127 \<le> (of_char c :: nat)
        then [CHR 0x5C, CHR ''u'', CHR ''0'', CHR ''0'',
              hex_digit (of_char c div 16), hex_digit (of_char c mod 16)]
      else [c])"

definition json_quote :: "string \<Rightarrow> string" where
  "json_quote s = CHR 0x22 # concat (map json_escape_char s) @ [CHR 0x22]"

fun join_comma :: "string list \<Rightarrow> string" where
  "join_comma [] = []"
| "join_comma [t] = t"
| "join_comma (t # ts) = t @ '', '' @ join_comma ts"

fun those_opt :: "'a option list \<Rightarrow> 'a list option" where
  "those_opt [] = Some []"
| "those_opt (None # _) = None"
| "those_opt (Some x # xs) = (case those_opt xs of None \<Rightarrow> None | Some ys \<Rightarrow> Some (x # ys))"

fun json_dumps :: "pyval \<Rightarrow> string option" where
  \<comment> \<open>\<^verbatim>\<open>json.dumps(v)\<close> with the default separators; \<open>None\<close> is the TypeError for an object
      that is not JSON serializable.\<close>
  "json_dumps PNone = Some ''null''"
| "json_dumps (PBool b) = Some (if b then ''true'' else ''false'')"
| "json_dumps (PInt i) = Some (py_str_int i)"
| "json_dumps (PStr s) = Some (json_quote s)"
| "json_dumps (PBytes b) = None"
| "json_dumps (PList vs) =
     (case those_opt (map json_dumps vs) of None \<Rightarrow> None
      | Some ts \<Rightarrow> Some (''['' @ join_comma ts @ '']''))"
| "json_dumps (PDict kvs) =
     (case those_opt (map (\<lambda>(k, v). json_dumps v) kvs) of None \<Rightarrow> None
      | Some ts \<Rightarrow>
          Some (''{'' @ join_comma (map2 (\<lambda>(k, v) t. json_quote k @ '': '' @ t) kvs ts) @ ''}''))"

fun apply_default :: "pyval \<Rightarrow> pyval" where
  \<comment> \<open>The hook \<^verbatim>\<open>default=lambda o: o.tolist() if hasattr(o, 'tolist') else str(o)\<close>, which
      \<^verbatim>\<open>json.dumps\<close> calls on every object it cannot serialize: a bytes object has no
      \<^verbatim>\<open>tolist\<close>, so it becomes the string \<^verbatim>\<open>str(o)\<close>.\<close>
  "apply_default (PBytes b) = PStr (py_bytes_repr b)"
| "apply_default (PList vs) = PList (map apply_default vs)"
| "apply_default (PDict kvs) = PDict (map (\<lambda>(k, v). (k, apply_default v)) kvs)"
| "apply_default v = v"

definition is_ws :: "char \<Rightarrow> bool" where
  "is_ws c = (c = CHR 0x20 \<or> c = CHR 0x09 \<or> c = CHR 0x0A \<or> c = CHR 0x0D)"

definition skip_ws :: "string \<Rightarrow> string" where
  "skip_ws = dropWhile is_ws"

definition is_digit :: "char \<Rightarrow> bool" where
  "is_digit c = (48 \<le> (of_char c :: nat) \<and> (of_char c :: nat) \<le> 57)"

definition nat_of_digits :: "string \<Rightarrow> nat" where
  "nat_of_digits ds = foldl (\<lambda>a c. 10 * a + (of_char c - 48)) 0 ds"

definition hex_val :: "char \<Rightarrow> nat option" where
  "hex_val c =
     (let n = (of_char c :: nat)
      in if 48 \<le> n \<and> n \<le> 57 then Some (n - 48)
         else if 97 \<le> n \<and> n \<le> 102 then Some (n - 87)
         else if 65 \<le> n \<and> n \<le> 70 then Some (n - 55)
         else None)"

definition hex4 :: "string \<Rightarrow> nat option" where
  "hex4 s =
     (case map hex_val s of
        [Some a, Some b, Some c, Some d] \<Rightarrow> Some (((a * 16 + b) * 16 + c) * 16 + d)
      | _ \<Rightarrow> None)"

definition unescape :: "char \<Rightarrow> char option" where
  "unescape e =
     (if e = CHR 0x22 \<or> e = CHR 0x5C \<or> e = CHR ''/'' then Some e
      else if e = CHR ''b'' then Some (CHR 0x08)
      else if e = CHR ''f'' then Some (CHR 0x0C)
      else if e = CHR ''n'' then Some (CHR 0x0A)
      else if e = CHR ''r'' then Some (CHR 0x0D)
      else if e = CHR ''t'' then Some (CHR 0x09)
      else None)"

function parse_string :: "string \<Rightarrow> error + (string \<times> string)" where
  \<comment> \<open>the body of a JSON string, after the opening quote\<close>
  "parse_string [] = Inl JSONDecodeError"
| "parse_string (c # cs) =
     (if c = CHR 0x22 then Inr ([], cs)
      else if c = CHR 0x5C then
        (case cs of
           [] \<Rightarrow> Inl JSONDecodeError
         | e # cs' \<Rightarrow>
             if e = CHR ''u'' then
               (case hex4 (take 4 cs') of
                  None \<Rightarrow> Inl JSONDecodeError
                | Some v \<Rightarrow>
                    if v < 256 then
                      (case parse_string (drop 4 cs') of
                         Inl x \<Rightarrow> Inl x
                       | Inr (s, r) \<Rightarrow> Inr (char_of v # s, r))
                    else Inl NotModelled)
             else
               (case unescape e of
                  None \<Rightarrow> Inl JSONDecodeError
                | Some ch \<Rightarrow>
                    (case parse_string cs' of
                       Inl x \<Rightarrow> Inl x
                     | Inr (s, r) \<Rightarrow> Inr (ch # s, r))))
      else if (of_char c :: nat) < 32 then Inl JSONDecodeError
      else
        (case parse_string cs of
           Inl x \<Rightarrow> Inl x
         | Inr (s, r) \<Rightarrow> Inr (c # s, r)))"
  by pat_completeness auto
termination
  by (relation "measure length") auto

definition parse_number :: "string \<Rightarrow> error + (pyval \<times> string)" where
  \<comment> \<open>An integer literal \<^verbatim>\<open>-?(0|[1-9][0-9]*)\<close>; a fraction or an exponent makes a float.\<close>
  "parse_number cs =
     (let neg = (take 1 cs = ''-'');
          body = (if neg then drop 1 cs else cs);
          ds = takeWhile is_digit body;
          rest = dropWhile is_digit body
      in if ds = [] then (if take 8 body = ''Infinity'' then Inl NotModelled else Inl JSONDecodeError)
         else if take 1 ds = ''0'' \<and> 1 < length ds then Inl JSONDecodeError
         else if take 1 rest = ''.'' \<or> take 1 rest = ''e'' \<or> take 1 rest = ''E''
           then Inl NotModelled
         else Inr (PInt (if neg then - int (nat_of_digits ds) else int (nat_of_digits ds)), rest))"

fun parse_value :: "nat \<Rightarrow> string \<Rightarrow> error + (pyval \<times> string)"
  and parse_elems :: "nat \<Rightarrow> pyval list \<Rightarrow> string \<Rightarrow> error + (pyval \<times> string)"
  and parse_members :: "nat \<Rightarrow> (string \<times> pyval) list \<Rightarrow> string \<Rightarrow> error + (pyval \<times> string)"
where
  "parse_value 0 cs = Inl NotModelled"
| "parse_value (Suc k) cs =
     (case cs of
        [] \<Rightarrow> Inl JSONDecodeError
      | c # r \<Rightarrow>
          if c = CHR 0x22 then
            (case parse_string r of Inl e \<Rightarrow> Inl e | Inr (s, r') \<Rightarrow> Inr (PStr s, r'))
          else if c = CHR ''{'' then
            (if take 1 (skip_ws r) = ''}'' then Inr (PDict [], drop 1 (skip_ws r))
             else parse_members k [] (skip_ws r))
          else if c = CHR ''['' then
            (if take 1 (skip_ws r) = '']'' then Inr (PList [], drop 1 (skip_ws r))
             else parse_elems k [] (skip_ws r))
          else if take 4 cs = ''null'' then Inr (PNone, drop 4 cs)
          else if take 4 cs = ''true'' then Inr (PBool True, drop 4 cs)
          else if take 5 cs = ''false'' then Inr (PBool False, drop 5 cs)
          else if take 3 cs = ''NaN'' \<or> take 8 cs = ''Infinity'' then Inl NotModelled
          else parse_number cs)"
| "parse_elems 0 acc cs = Inl NotModelled"
| "parse_elems (Suc k) acc cs =
     (case parse_value k cs of
        Inl e \<Rightarrow> Inl e
      | Inr (v, r) \<Rightarrow>
          (case skip_ws r of
             [] \<Rightarrow> Inl JSONDecodeError
           | c # r' \<Rightarrow>
               if c = CHR '','' then parse_elems k (acc @ [v]) (skip_ws r')
               else if c = CHR '']'' then Inr (PList (acc @ [v]), r')
               else Inl JSONDecodeError))"
| "parse_members 0 acc cs = Inl NotModelled"
| "parse_members (Suc k) acc cs =
     (case cs of
        [] \<Rightarrow> Inl JSONDecodeError
      | q # r \<Rightarrow>
          if q \<noteq> CHR 0x22 then Inl JSONDecodeError
          else
            (case parse_string r of
               Inl e \<Rightarrow> Inl e
             | Inr (key, r1) \<Rightarrow>
                 if take 1 (skip_ws r1) \<noteq> '':'' then Inl JSONDecodeError
                 else
                   (case parse_value k (skip_ws (drop 1 (skip_ws r1))) of
                      Inl e \<Rightarrow> Inl e
                    | Inr (v, r3) \<Rightarrow>
                        (case skip_ws r3 of
                           [] \<Rightarrow> Inl JSONDecodeError
                         | c # r4 \<Rightarrow>
                             if c = CHR '','' then parse_members k (acc @ [(key, v)]) (skip_ws r4)
                             else if c = CHR ''}'' then Inr (PDict (acc @ [(key, v)]), r4)
                             else Inl JSONDecodeError))))"

definition json_loads :: "string \<Rightarrow> error + pyval" where
  \<comment> \<open>\<^verbatim>\<open>json.loads(s)\<close>. Every call of the parser consumes a character or follows one that
      did, so twice the length of the text is fuel enough.\<close>
  "json_loads s =
     (case parse_value (2 * length s + 2) (skip_ws s) of
        Inl e \<Rightarrow> Inl e
      | Inr (v, r) \<Rightarrow> if skip_ws r = [] then Inr v else Inl JSONDecodeError)"

definition py_decode :: "bytes \<Rightarrow> error + string" where
  \<comment> \<open>\<^verbatim>\<open>b.decode()\<close>: UTF-8, the identity on ASCII\<close>
  "py_decode b = (if list_all (\<lambda>c. (of_char c :: nat) < 128) b then Inr b else Inl NotModelled)"

definition py_getitem :: "pyval \<Rightarrow> string \<Rightarrow> error + pyval" where
  \<comment> \<open>\<^verbatim>\<open>obj[key]\<close> for a string key: a dict keeps the last value parsed for a key\<close>
  "py_getitem obj key =
     (case obj of
        PDict kvs \<Rightarrow> (case map_of (rev kvs) key of None \<Rightarrow> Inl KeyError | Some v \<Rightarrow> Inr v)
      | _ \<Rightarrow> Inl TypeError)"

definition py_as_int :: "pyval \<Rightarrow> error + int" where
  \<comment> \<open>a value used in integer arithmetic or as a slice bound\<close>
  "py_as_int v =
     (case v of PInt i \<Rightarrow> Inr i | PBool b \<Rightarrow> Inr (if b then 1 else 0) | _ \<Rightarrow> Inl TypeError)"

subsection \<open>The compressor backend\<close>

record backend =
  bk_compress :: "bytes \<Rightarrow> bytes"
  bk_decompress :: "bytes \<Rightarrow> bytes option"

text \<open>
  The general-purpose compressor (gzip or zstd) is a collaborator: \<open>bk_compress\<close> is
  \<^verbatim>\<open>gzip.compress(b, 9)\<close>, \<open>bk_decompress\<close> is \<^verbatim>\<open>gzip.decompress(b)\<close>, with \<open>None\<close> when
  it raises.
\<close>

definition lossless :: "backend \<Rightarrow> bool" where
  "lossless B = (\<forall>b. bk_decompress B (bk_compress B b) = Some b)"

definition decompress_or_raise :: "backend \<Rightarrow> bytes \<Rightarrow> error + bytes" where
  "decompress_or_raise B b =
     (case bk_decompress B b of None \<Rightarrow> Inl BackendError | Some r \<Rightarrow> Inr r)"

definition stored_backend :: backend where
  \<comment> \<open>A minimal lossless backend to instantiate the theorems with: it stores the input
      behind one marker byte. Like \<^verbatim>\<open>gzip.decompress\<close> it maps the empty stream to the
      empty output, and it rejects a stream without the marker.\<close>
  "stored_backend =
     \<lparr>bk_compress = (\<lambda>b. CHR ''S'' # b),
      bk_decompress = (\<lambda>b. case b of [] \<Rightarrow> Some [] | c # r \<Rightarrow> if c = CHR ''S'' then Some r else None)\<rparr>"

subsection \<open>MiniRP2\<close>

definition rp2_header :: "nat \<Rightarrow> nat \<Rightarrow> nat \<Rightarrow> pyval" where
  "rp2_header mid orig_len left_c_len =
     PDict [(''mid'', PInt (int mid)), (''orig_len'', PInt (int orig_len)),
            (''left_c_len'', PInt (int left_c_len))]"

definition rp2_header_text :: "nat \<Rightarrow> nat \<Rightarrow> nat \<Rightarrow> string" where
  \<comment> \<open>the text of a header, as \<^verbatim>\<open>json.dumps\<close> writes it\<close>
  "rp2_header_text mid orig_len left_c_len =
     ''{'' @ json_quote ''mid'' @ '': '' @ digits10 mid @ '', ''
       @ json_quote ''orig_len'' @ '': '' @ digits10 orig_len @ '', ''
       @ json_quote ''left_c_len'' @ '': '' @ digits10 left_c_len @ ''}''"

definition rp2_streams :: "real list \<Rightarrow> real list \<times> real list" where
  \<comment> \<open>the two streams of a symmetric block, \<^verbatim>\<open>left_p\<close> and \<^verbatim>\<open>delta\<close>: the lines of
      \<^verbatim>\<open>MiniRP2.compress\<close> from \<^verbatim>\<open>mid = len(data) // 2\<close> to \<^verbatim>\<open>delta = left_p - flipped_p\<close>\<close>
  "rp2_streams data =
     (let mid = length data div 2;
          left = py_slice_to data (int mid);
          right = py_slice_from data (int mid);
          flipped = map uminus (rev right);
          max_len = max (length left) (length flipped);
          left_p = left @ replicate (max_len - length left) 0;
          flipped_p = flipped @ replicate (max_len - length flipped) 0;
          delta = map2 (-) left_p flipped_p
      in (left_p, delta))"

definition rp2_compress :: "backend \<Rightarrow> real list \<Rightarrow> error + (bytes \<times> nat option)" where
  \<comment> \<open>\<^verbatim>\<open>MiniRP2.compress\<close>: the block and the seam (\<open>None\<close> for a direct block)\<close>
  "rp2_compress B data =
     (let gain = estimate_gain data in
      if gain < 0 then
        let bytes_in = f32_tobytes (map f32_round data)
        in Inr (bk_compress B bytes_in, None)
      else
        let mid = length data div 2;
            (left_p, delta) = rp2_streams data;
            left_b = f32_tobytes (map f32_round left_p);
            delta_b = f32_tobytes (map f32_round delta);
            c_left = bk_compress B left_b;
            c_delta = bk_compress B delta_b;
            header = rp2_header mid (length data) (length c_left)
        in case json_dumps header of
             None \<Rightarrow> Inl TypeError
           | Some h_bytes \<Rightarrow>
               (case to_bytes4 (length h_bytes) of
                  Inl e \<Rightarrow> Inl e
                | Inr h_len \<Rightarrow> Inr (h_len @ h_bytes @ c_left @ c_delta, Some mid)))"

definition rp2_split :: "bytes \<Rightarrow> error + (pyval \<times> bytes \<times> bytes)" where
  \<comment> \<open>the first six lines of \<^verbatim>\<open>MiniRP2.decompress\<close>: the header and the two streams\<close>
  "rp2_split compressed =
     (let h_len = int (from_bytes_le (py_slice_to compressed 4)) in
      case py_decode (py_slice compressed 4 (4 + h_len)) of
        Inl e \<Rightarrow> Inl e
      | Inr text \<Rightarrow>
          (case json_loads text of
             Inl e \<Rightarrow> Inl e
           | Inr header \<Rightarrow>
               let left_start = 4 + h_len in
               (case py_getitem header ''left_c_len'' of
                  Inl e \<Rightarrow> Inl e
                | Inr v \<Rightarrow>
                    (case py_as_int v of
                       Inl e \<Rightarrow> Inl e
                     | Inr left_c_len \<Rightarrow>
                         let left_end = left_start + left_c_len;
                             c_left = py_slice compressed left_start left_end;
                             c_delta = py_slice_from compressed left_end
                         in Inr (header, c_left, c_delta)))))"

definition header_int :: "pyval \<Rightarrow> string \<Rightarrow> error + int" where
  "header_int header key =
     (case py_getitem header key of Inl e \<Rightarrow> Inl e | Inr v \<Rightarrow> py_as_int v)"

definition rp2_rebuild :: "pyval \<Rightarrow> bytes \<Rightarrow> bytes \<Rightarrow> error + f32 list" where
  \<comment> \<open>the last six lines of \<^verbatim>\<open>MiniRP2.decompress\<close>, from the decompressed streams\<close>
  "rp2_rebuild header left_b delta_b =
     (case np_frombuffer_f32 left_b of
        Inl e \<Rightarrow> Inl e
      | Inr left_p \<Rightarrow>
          (case np_frombuffer_f32 delta_b of
             Inl e \<Rightarrow> Inl e
           | Inr delta \<Rightarrow>
               (case np_sub_f32 left_p delta of
                  Inl e \<Rightarrow> Inl e
                | Inr flipped_p \<Rightarrow>
                    (case py_getitem header ''orig_len'' of
                       Inl e \<Rightarrow> Inl e
                     | Inr v_orig_len \<Rightarrow>
                         (case py_getitem header ''mid'' of
                            Inl e \<Rightarrow> Inl e
                          | Inr v_mid \<Rightarrow>
                              (case py_as_int v_orig_len of
                                 Inl e \<Rightarrow> Inl e
                               | Inr orig_len \<Rightarrow>
                                   (case py_as_int v_mid of
                                      Inl e \<Rightarrow> Inl e
                                    | Inr mid \<Rightarrow>
                                        let right = map f32_neg
                                              (py_slice_to (rev flipped_p) (orig_len - mid));
                                            left = py_slice_to left_p mid
                                        in Inr (left @ right))))))))"

definition rp2_decompress :: "backend \<Rightarrow> bytes \<Rightarrow> error + f32 list" where
  \<comment> \<open>\<^verbatim>\<open>MiniRP2.decompress\<close>\<close>
  "rp2_decompress B compressed =
     (case rp2_split compressed of
        Inl e \<Rightarrow> Inl e
      | Inr (header, c_left, c_delta) \<Rightarrow>
          (case decompress_or_raise B c_left of
             Inl e \<Rightarrow> Inl e
           | Inr left_b \<Rightarrow>
               (case decompress_or_raise B c_delta of
                  Inl e \<Rightarrow> Inl e
                | Inr delta_b \<Rightarrow> rp2_rebuild header left_b delta_b)))"

definition approx_decode :: "backend \<Rightarrow> nat option \<Rightarrow> bytes \<Rightarrow> error + f32 list" where
  \<comment> \<open>How \<^verbatim>\<open>hybrid_decompress\<close> decodes the block of the approximation: through
      \<^verbatim>\<open>MiniRP2.decompress\<close> when a seam was recorded, as a direct block otherwise.\<close>
  "approx_decode B seam approx_comp =
     (case seam of
        Some mid \<Rightarrow> rp2_decompress B approx_comp
      | None \<Rightarrow>
          (case decompress_or_raise B approx_comp of
             Inl e \<Rightarrow> Inl e
           | Inr raw \<Rightarrow> np_frombuffer_f32 raw))"

subsection \<open>Thresholding of the detail coefficients\<close>

datatype f64 = Fin real | NegZero | NaN

text \<open>
  The elements of a float64 array as the thresholding sees and produces them: a finite
  number (\<open>Fin 0\<close> is \<open>+0.0\<close>), the negative zero \<open>-0.0\<close>, and NaN. The arithmetic on
  finite numbers is idealised as exact; the special values follow IEEE 754.
\<close>

definition f64_val :: "f64 \<Rightarrow> real option" where
  \<comment> \<open>the number an element stands for; \<open>None\<close> for NaN\<close>
  "f64_val x = (case x of Fin v \<Rightarrow> Some v | NegZero \<Rightarrow> Some 0 | NaN \<Rightarrow> None)"

definition np_abs :: "f64 \<Rightarrow> f64" where
  "np_abs x = (case x of Fin v \<Rightarrow> Fin \<bar>v\<bar> | NegZero \<Rightarrow> Fin 0 | NaN \<Rightarrow> NaN)"

definition np_median :: "real list \<Rightarrow> real" where
  \<comment> \<open>the median of the numbers of a non-empty array (the empty case is decided in
      \<open>np_median_f64\<close> before this function is reached)\<close>
  "np_median xs =
     (let s = sort xs; n = length xs
      in if n = 0 then 0
         else if odd n then s ! (n div 2)
         else (s ! (n div 2 - 1) + s ! (n div 2)) / 2)"

definition np_median_f64 :: "f64 list \<Rightarrow> real option" where
  \<comment> \<open>\<^verbatim>\<open>np.median\<close>; \<open>None\<close> is NaN, the median of an empty array and of an array that
      holds a NaN\<close>
  "np_median_f64 xs =
     (if xs = [] then None
      else case those_opt (map f64_val xs) of
             None \<Rightarrow> None
           | Some vs \<Rightarrow> Some (np_median vs))"

definition pywt_soft :: "real option \<Rightarrow> f64 \<Rightarrow> f64" where
  \<comment> \<open>\<^verbatim>\<open>pywt.threshold(d, thresh, mode='soft')\<close> on one element. The library computes
      \<^verbatim>\<open>data * clip(1 - thresh / abs(data), min=0)\<close> with division warnings silenced. At a
      zero element \<^verbatim>\<open>thresh / 0\<close> is \<open>+inf\<close> for a positive threshold (the factor clips to
      0 and the zero is kept), NaN for a zero threshold and \<open>-inf\<close> for a negative one (the
      factor is NaN or \<open>+inf\<close>, and the product with 0 is NaN). A factor 0 times a
      negative element is \<open>-0.0\<close>. A NaN threshold (\<open>None\<close>) or element gives NaN.\<close>
  "pywt_soft thresh x =
     (case thresh of
        None \<Rightarrow> NaN
      | Some t \<Rightarrow>
          (case x of
             NaN \<Rightarrow> NaN
           | NegZero \<Rightarrow> if 0 < t then NegZero else NaN
           | Fin v \<Rightarrow>
               if v = 0 then (if 0 < t then Fin 0 else NaN)
               else let c = max (1 - t / \<bar>v\<bar>) 0
                    in if c = 0 \<and> v < 0 then NegZero else Fin (v * c)))"

definition detail_threshold :: "real \<Rightarrow> f64 list \<Rightarrow> f64 list" where
  \<comment> \<open>the body of the loop over the details in \<^verbatim>\<open>hybrid_compress\<close>\<close>
  "detail_threshold thresh_factor d =
     (let thresh = map_option (\<lambda>m. thresh_factor * m / (6745 / 10000))
                     (np_median_f64 (map np_abs d))
      in map (pywt_soft thresh) d)"

definition f64_eq :: "f64 \<Rightarrow> f64 \<Rightarrow> bool" where
  \<comment> \<open>the comparison \<^verbatim>\<open>==\<close> of two floats: the zeros are equal, a NaN equals nothing\<close>
  "f64_eq x y =
     (case f64_val x of
        None \<Rightarrow> False
      | Some a \<Rightarrow> (case f64_val y of None \<Rightarrow> False | Some b \<Rightarrow> a = b))"

definition np_array_equal :: "f64 list \<Rightarrow> f64 list \<Rightarrow> bool" where
  \<comment> \<open>\<^verbatim>\<open>np.array_equal\<close>: the same length and \<^verbatim>\<open>==\<close> at every index\<close>
  "np_array_equal a b = list_all2 f64_eq a b"

definition astype_f32 :: "f32 \<Rightarrow> f64 \<Rightarrow> f32" where
  \<comment> \<open>\<^verbatim>\<open>astype(np.float32)\<close> on one element; \<open>nan\<close> is the binary32 pattern of a converted
      NaN\<close>
  "astype_f32 nan x =
     (case x of Fin v \<Rightarrow> f32_round v | NegZero \<Rightarrow> 0x80000000 | NaN \<Rightarrow> nan)"

subsection \<open>Hybrid compression with the family selector\<close>

record transform =
  wavedec :: "real list \<Rightarrow> string \<Rightarrow> int \<Rightarrow> error + real list list"
  waverec :: "f32 list list \<Rightarrow> pyval \<Rightarrow> error + real list"
  threshold_nan :: f32

text \<open>
  The wavelet library is a collaborator: \<open>wavedec\<close> is \<^verbatim>\<open>pywt.wavedec\<close> (an \<open>Inl\<close> when it
  raises), returning the approximation followed by the details, and \<open>waverec\<close> is
  \<^verbatim>\<open>pywt.waverec\<close>. \<open>threshold_nan\<close> is the binary32 pattern that a NaN made by
  \<^verbatim>\<open>pywt.threshold\<close> has after \<^verbatim>\<open>astype(np.float32)\<close>: a quiet NaN whose sign bit is the
  one the hardware gives to the NaN of an invalid operation.
\<close>

definition packed_dict ::
  "bytes \<Rightarrow> bytes list \<Rightarrow> nat option \<Rightarrow> nat \<Rightarrow> string \<Rightarrow> int \<Rightarrow> pyval" where
  "packed_dict approx_comp details seam orig_len family levels =
     PDict [(''approx'', PBytes approx_comp),
            (''details'', PList (map PBytes details)),
            (''seam'', (case seam of None \<Rightarrow> PNone | Some mid \<Rightarrow> PInt (int mid))),
            (''orig_len'', PInt (int orig_len)),
            (''wavelet'', PStr family),
            (''levels'', PInt levels)]"

definition packed_text ::
  "bytes \<Rightarrow> bytes list \<Rightarrow> nat option \<Rightarrow> nat \<Rightarrow> string \<Rightarrow> int \<Rightarrow> string" where
  \<comment> \<open>the text of a packed record, as \<^verbatim>\<open>json.dumps\<close> with the \<^verbatim>\<open>default\<close> hook writes it\<close>
  "packed_text approx_comp details seam orig_len family levels =
     ''{'' @ json_quote ''approx'' @ '': '' @ json_quote (py_bytes_repr approx_comp) @ '', ''
       @ json_quote ''details'' @ '': [''
       @ join_comma (map (\<lambda>d. json_quote (py_bytes_repr d)) details) @ ''], ''
       @ json_quote ''seam'' @ '': ''
       @ (case seam of None \<Rightarrow> ''null'' | Some mid \<Rightarrow> digits10 mid) @ '', ''
       @ json_quote ''orig_len'' @ '': '' @ digits10 orig_len @ '', ''
       @ json_quote ''wavelet'' @ '': '' @ json_quote family @ '', ''
       @ json_quote ''levels'' @ '': '' @ py_str_int levels @ ''}''"

definition pack_bytes :: "backend \<Rightarrow> pyval \<Rightarrow> error + bytes" where
  \<comment> \<open>\<^verbatim>\<open>compress(json.dumps(packed, default=...).encode())\<close>\<close>
  "pack_bytes B packed =
     (case json_dumps (apply_default packed) of
        None \<Rightarrow> Inl TypeError
      | Some text \<Rightarrow> Inr (bk_compress B text))"

definition try_family ::
  "backend \<Rightarrow> transform \<Rightarrow> real list \<Rightarrow> int \<Rightarrow> real \<Rightarrow> string
     \<Rightarrow> error + (bytes \<times> real list list \<times> nat option)" where
  \<comment> \<open>the body of the \<^verbatim>\<open>try\<close> block for one family, up to \<^verbatim>\<open>packed_bytes\<close>\<close>
  "try_family B T data levels thresh_factor family =
     (case wavedec T data family levels of
        Inl e \<Rightarrow> Inl e
      | Inr coeffs \<Rightarrow>
          (case coeffs of
             [] \<Rightarrow> Inl IndexError
           | approx # details \<Rightarrow>
               (case rp2_compress B approx of
                  Inl e \<Rightarrow> Inl e
                | Inr (approx_comp, seam) \<Rightarrow>
                    let thresholded_details =
                          map (\<lambda>d. detail_threshold thresh_factor (map Fin d)) details;
                        packed = packed_dict approx_comp
                                   (map (\<lambda>d. f32_tobytes (map (astype_f32 (threshold_nan T)) d))
                                      thresholded_details)
                                   seam (length data) family levels
                    in (case pack_bytes B packed of
                          Inl e \<Rightarrow> Inl e
                        | Inr packed_bytes \<Rightarrow> Inr (packed_bytes, coeffs, seam)))))"

definition toy_transform :: transform where
  \<comment> \<open>A stand-in for the wavelet collaborator to instantiate the theorems with: it knows
      the families \<^verbatim>\<open>db4\<close> and \<^verbatim>\<open>db8\<close>, decomposes a signal into itself and one empty
      detail array, and fails on every other family.\<close>
  "toy_transform =
     \<lparr>wavedec = (\<lambda>data family levels.
        if family = ''db4'' \<or> family = ''db8'' then Inr [data, []] else Inl TransformError),
      waverec = (\<lambda>coeffs w. case coeffs of [] \<Rightarrow> Inl ValueError | a # ds \<Rightarrow> Inr (map f32_val a)),
      threshold_nan = 0x7FC00000\<rparr>"

record best =
  best_compressed :: "bytes option"
  best_size :: enat
  best_family :: "string option"
  best_coeffs :: "real list list option"
  best_seam :: "nat option"

definition best_init :: best where
  "best_init =
     \<lparr>best_compressed = None, best_size = \<infinity>, best_family = None, best_coeffs = None,
      best_seam = None\<rparr>"

definition family_step ::
  "backend \<Rightarrow> transform \<Rightarrow> real list \<Rightarrow> int \<Rightarrow> real \<Rightarrow> string \<Rightarrow> best \<Rightarrow> best" where
  \<comment> \<open>one iteration of the loop over the families; an exception skips the family\<close>
  "family_step B T data levels thresh_factor family st =
     (case try_family B T data levels thresh_factor family of
        Inl e \<Rightarrow> st
      | Inr (packed_bytes, coeffs, seam) \<Rightarrow>
          let packed_size = length packed_bytes
          in if enat packed_size < best_size st
             then \<lparr>best_compressed = Some packed_bytes, best_size = enat packed_size,
                   best_family = Some family, best_coeffs = Some coeffs, best_seam = seam\<rparr>
             else st)"

definition hybrid_compress ::
  "backend \<Rightarrow> transform \<Rightarrow> real list \<Rightarrow> string list \<Rightarrow> int \<Rightarrow> real
     \<Rightarrow> error + (bytes \<times> real list list option \<times> string option)" where
  "hybrid_compress B T data families levels thresh_factor =
     (let st = fold (family_step B T data levels thresh_factor) families best_init
      in case best_compressed st of
           None \<Rightarrow> Inl (RuntimeError ''No wavelet family succeeded'')
         | Some c \<Rightarrow> Inr (c, best_coeffs st, best_family st))"

definition hybrid_unpack :: "backend \<Rightarrow> bytes \<Rightarrow> error + pyval" where
  \<comment> \<open>the first two lines of \<^verbatim>\<open>hybrid_decompress\<close>\<close>
  "hybrid_unpack B compressed =
     (case decompress_or_raise B compressed of
        Inl e \<Rightarrow> Inl e
      | Inr raw \<Rightarrow> (case py_decode raw of Inl e \<Rightarrow> Inl e | Inr text \<Rightarrow> json_loads text))"

definition detail_buffer :: "pyval \<Rightarrow> error + f32 list" where
  \<comment> \<open>\<^verbatim>\<open>np.frombuffer(d.encode('latin1') if isinstance(d, str) else d, np.float32)\<close>\<close>
  "detail_buffer d =
     (case d of
        PStr s \<Rightarrow> np_frombuffer_f32 s
      | PBytes b \<Rightarrow> np_frombuffer_f32 b
      | _ \<Rightarrow> Inl TypeError)"

definition py_iter :: "pyval \<Rightarrow> error + pyval list" where
  \<comment> \<open>the elements a \<^verbatim>\<open>for\<close> loop visits\<close>
  "py_iter v =
     (case v of
        PList vs \<Rightarrow> Inr vs
      | PStr s \<Rightarrow> Inr (map (\<lambda>c. PStr [c]) s)
      | PBytes b \<Rightarrow> Inr (map (\<lambda>c. PInt (of_char c)) b)
      | PDict kvs \<Rightarrow> Inr (map PStr (remdups (map fst kvs)))
      | _ \<Rightarrow> Inl TypeError)"

fun map_err :: "('a \<Rightarrow> error + 'b) \<Rightarrow> 'a list \<Rightarrow> error + 'b list" where
  "map_err f [] = Inr []"
| "map_err f (x # xs) =
     (case f x of
        Inl e \<Rightarrow> Inl e
      | Inr y \<Rightarrow> (case map_err f xs of Inl e \<Rightarrow> Inl e | Inr ys \<Rightarrow> Inr (y # ys)))"

definition hybrid_approx :: "backend \<Rightarrow> pyval \<Rightarrow> pyval \<Rightarrow> error + f32 list" where
  \<comment> \<open>The decoding of \<^verbatim>\<open>packed['approx']\<close>. Both \<^verbatim>\<open>MiniRP2.decompress\<close> (through
      \<^verbatim>\<open>int.from_bytes\<close>) and the backend need a bytes object and raise TypeError on
      anything else.\<close>
  "hybrid_approx B seam approx_comp =
     (case approx_comp of
        PBytes b \<Rightarrow> approx_decode B (if seam = PNone then None else Some 0) b
      | _ \<Rightarrow> Inl TypeError)"

definition hybrid_decompress :: "backend \<Rightarrow> transform \<Rightarrow> bytes \<Rightarrow> error + real list" where
  "hybrid_decompress B T compressed =
     (case hybrid_unpack B compressed of
        Inl e \<Rightarrow> Inl e
      | Inr packed \<Rightarrow>
          (case py_getitem packed ''approx'' of
             Inl e \<Rightarrow> Inl e
           | Inr approx_comp \<Rightarrow>
               (case py_getitem packed ''seam'' of
                  Inl e \<Rightarrow> Inl e
                | Inr seam \<Rightarrow>
                    (case hybrid_approx B seam approx_comp of
                       Inl e \<Rightarrow> Inl e
                     | Inr approx \<Rightarrow>
                         (case py_getitem packed ''details'' of
                            Inl e \<Rightarrow> Inl e
                          | Inr ds \<Rightarrow>
                              (case py_iter ds of
                                 Inl e \<Rightarrow> Inl e
                               | Inr dl \<Rightarrow>
                                   (case map_err detail_buffer dl of
                                      Inl e \<Rightarrow> Inl e
                                    | Inr details \<Rightarrow>
                                        (case py_getitem packed ''wavelet'' of
                                           Inl e \<Rightarrow> Inl e
                                         | Inr w \<Rightarrow>
                                             (case waverec T (approx # details) w of
                                                Inl e \<Rightarrow> Inl e
                                              | Inr reconstructed \<Rightarrow>
                                                  (case header_int packed ''orig_len'' of
                                                     Inl e \<Rightarrow> Inl e
                                                   | Inr n \<Rightarrow>
                                                       Inr (py_slice_to reconstructed n)))))))))))"

section \<open>Properties\<close>

subsection \<open>Slices and the estimate\<close>

lemma py_slice_to_nat: "py_slice_to xs (int k) = take k xs"
  by (simp add: py_slice_to_def clamp_index_def min_def)

lemma py_slice_from_nat: "py_slice_from xs (int k) = drop k xs"
  by (simp add: py_slice_from_def clamp_index_def min_def)

lemma py_slice_nat: "py_slice xs (int a) (int b) = take (b - a) (drop a xs)"
proof (cases "a \<le> length xs")
  case True
  then show ?thesis
    by (simp add: py_slice_def clamp_index_def Let_def min_def)
next
  case False
  then show ?thesis
    by (simp add: py_slice_def clamp_index_def Let_def min_def)
qed

lemma eg_left_eq: "eg_left data = take (length data div 2) data"
  by (simp add: eg_left_def py_slice_to_nat)

lemma eg_right_f_eq:
  "eg_right_f data =
     map uminus (rev (take (length data div 2) (drop (length data div 2) data)))"
proof -
  have "length data div 2 \<le> length data"
    by simp
  then have "length (eg_left data) = length data div 2"
    by (simp add: eg_left_eq)
  then show ?thesis
    unfolding eg_right_f_def Let_def py_slice_nat by simp
qed

lemma eg_lengths: "length (eg_left data) = length data div 2"
  "length (eg_right_f data) = length data div 2"
proof -
  have "length data div 2 \<le> length data - length data div 2"
    by linarith
  then show "length (eg_left data) = length data div 2"
    "length (eg_right_f data) = length data div 2"
    by (simp_all add: eg_left_eq eg_right_f_eq)
qed

lemma estimate_gain_eq:
  "estimate_gain data =
     (if length data < 512 \<or> np_var (map2 (-) (eg_left data) (eg_right_f data)) \<ge> np_var data
      then - 1
      else real (length data) * 32
             * (1 - np_var (map2 (-) (eg_left data) (eg_right_f data))
                      / (np_var data + 1 / 10 ^ 10))
             * (1 / 2) - 2000)"
  by (simp add: estimate_gain_def Let_def eg_lengths)

text \<open>
  C10. In the gain estimate the left slice and the flipped right slice always have the
  same length, \<open>n div 2\<close>, because \<open>n - n div 2 \<ge> n div 2\<close> for every \<open>n\<close>: the branch
  that returns the sentinel for unequal lengths is never taken, and the estimate is
  the sentinel for \<open>n < 512\<close> or for a delta variance not below the variance of the
  data, and the gain formula otherwise.
\<close>

theorem estimate_gain_length_branch_unreachable:
  "length data - length data div 2 \<ge> length data div 2
   \<and> length (eg_left data) = length (eg_right_f data)
   \<and> estimate_gain data =
       (let delta = map2 (-) (eg_left data) (eg_right_f data) in
        if length data < 512 then - 1
        else if np_var delta \<ge> np_var data then - 1
        else real (length data) * 32 * (1 - np_var delta / (np_var data + 1 / 10 ^ 10))
               * (1 / 2) - 2000)"
proof -
  have "length data - length data div 2 \<ge> length data div 2"
    by linarith
  moreover have "length (eg_left data) = length (eg_right_f data)"
    by (simp add: eg_lengths)
  ultimately show ?thesis
    by (simp add: estimate_gain_eq Let_def)
qed

text \<open>
  C3. The gain estimate depends on the data alone; it is the sentinel \<open>-1\<close> whenever
  \<open>n < 512\<close> or the variance of the delta is not below the variance of the data, and
  otherwise exactly \<open>n * 32 * (1 - ratio) * 0.5 - 2000\<close> with
  \<open>ratio = var delta / (var data + 1e-10)\<close>, where the delta is the left half minus the
  negated reverse of the right slice of the same length.
\<close>

theorem estimate_gain_spec:
  "estimate_gain data =
     (let n = length data;
          mid = n div 2;
          left = take mid data;
          flipped = map uminus (rev (take mid (drop mid data)));
          delta = map2 (-) left flipped;
          ratio = np_var delta / (np_var data + 1 / 10 ^ 10)
      in if n < 512 \<or> np_var delta \<ge> np_var data then - 1
         else real n * 32 * (1 - ratio) * (1 / 2) - 2000)"
  by (simp add: estimate_gain_eq Let_def eg_left_eq eg_right_f_eq)

subsection \<open>Bytes of integers and of float32 arrays\<close>

lemma of_char_char_of_nat: "(of_char (char_of (n::nat)) :: nat) = n mod 256"
  by (simp add: of_char_of)

lemma length_le4: "length (le4 n) = 4"
  by (simp add: le4_def)

lemma le4_digits:
  "n mod 256 + 256 * (n div 256 mod 256) + 65536 * (n div 65536 mod 256)
     + 16777216 * (n div 16777216) = (n::nat)"
proof -
  define a where "a = n div 256"
  define b where "b = a div 256"
  define c where "c = b div 256"
  have b: "n div 65536 = b"
    using div_mult2_eq [of n 256 256] by (simp add: a_def b_def)
  have c: "n div 16777216 = c"
    using div_mult2_eq [of n 65536 256] b by (simp add: c_def)
  have "n = n mod 256 + 256 * a" by (simp add: a_def)
  moreover have "a = a mod 256 + 256 * b" by (simp add: b_def)
  moreover have "b = b mod 256 + 256 * c" by (simp add: c_def)
  ultimately have "n = n mod 256 + 256 * (a mod 256) + 65536 * (b mod 256) + 16777216 * c"
    by linarith
  then show ?thesis by (simp add: b c a_def [symmetric])
qed

lemma from_bytes_le_le4: "n < 2 ^ 32 \<Longrightarrow> from_bytes_le (le4 n) = n"
proof -
  assume "n < 2 ^ 32"
  then have "n div 16777216 < 256" by simp
  then have "from_bytes_le (le4 n)
      = n mod 256 + 256 * (n div 256 mod 256) + 65536 * (n div 65536 mod 256)
        + 16777216 * (n div 16777216)"
    by (simp add: le4_def of_char_of)
  then show ?thesis by (simp only: le4_digits)
qed

lemma chunks4_le4: "chunks4 (le4 n @ rest) = le4 n # chunks4 rest"
  by (simp add: le4_def)

lemma length_f32_tobytes: "length (f32_tobytes ws) = 4 * length ws"
  by (induction ws) (simp_all add: f32_tobytes_def length_le4)

lemma chunks4_f32_tobytes: "chunks4 (f32_tobytes ws) = map (\<lambda>w. le4 (unat w)) ws"
proof (induction ws)
  case Nil
  then show ?case by (simp add: f32_tobytes_def)
next
  case (Cons w ws)
  have "f32_tobytes (w # ws) = le4 (unat w) @ f32_tobytes ws"
    by (simp add: f32_tobytes_def)
  then show ?case using Cons by (simp add: chunks4_le4)
qed

lemma word_of_le4: "word_of_nat (from_bytes_le (le4 (unat w))) = (w :: f32)"
proof -
  have "unat w < 2 ^ 32" using unsigned_less [of w] by simp
  then show ?thesis by (simp add: from_bytes_le_le4)
qed

lemma np_frombuffer_f32_tobytes: "np_frombuffer_f32 (f32_tobytes ws) = Inr ws"
  by (simp add: np_frombuffer_f32_def length_f32_tobytes chunks4_f32_tobytes word_of_le4
      o_def map_idI)

subsection \<open>Decimal digits\<close>

lemma digit_char_props:
  assumes "d < 10"
  shows "is_digit (digit_char d)" "(of_char (digit_char d) :: nat) - 48 = d"
    "(of_char (digit_char d) :: nat) = 48 + d"
  using assms by (simp_all add: is_digit_def digit_char_def of_char_of)

lemma digits10_digits: "c \<in> set (digits10 n) \<Longrightarrow> is_digit c"
proof (induction n arbitrary: c rule: digits10.induct)
  case (1 n)
  show ?case
  proof (cases "n < 10")
    case True
    with "1.prems" show ?thesis
      by (simp add: digits10.simps [of n] digit_char_props)
  next
    case False
    with "1.prems" have "c \<in> set (digits10 (n div 10)) \<or> c = digit_char (n mod 10)"
      by (auto simp: digits10.simps [of n])
    then show ?thesis
      using "1.IH" [OF False] by (auto simp: digit_char_props)
  qed
qed

lemma digits10_nonempty: "digits10 n \<noteq> []"
  by (simp add: digits10.simps [of n])

lemma nat_of_digits_snoc:
  "nat_of_digits (ds @ [c]) = 10 * nat_of_digits ds + (of_char c - 48)"
  by (simp add: nat_of_digits_def)

lemma nat_of_digits_digits10: "nat_of_digits (digits10 n) = n"
proof (induction n rule: digits10.induct)
  case (1 n)
  show ?case
  proof (cases "n < 10")
    case True
    then show ?thesis
      by (simp add: digits10.simps [of n] nat_of_digits_def digit_char_props)
  next
    case False
    then have "nat_of_digits (digits10 n) = 10 * (n div 10) + n mod 10"
      using "1.IH" by (simp add: digits10.simps [of n] nat_of_digits_snoc digit_char_props)
    then show ?thesis by simp
  qed
qed

lemma hd_digits10: "n \<noteq> 0 \<Longrightarrow> hd (digits10 n) \<noteq> CHR ''0''"
proof (induction n rule: digits10.induct)
  case (1 n)
  show ?case
  proof (cases "n < 10")
    case True
    with "1.prems" have "(of_char (hd (digits10 n)) :: nat) \<noteq> 48"
      by (simp add: digits10.simps [of n] digit_char_props)
    then show ?thesis by auto
  next
    case False
    then have "n div 10 \<noteq> 0" by simp
    then have "hd (digits10 (n div 10)) \<noteq> CHR ''0''"
      using "1.IH" False by simp
    then show ?thesis
      using False by (simp add: digits10.simps [of n] digits10_nonempty)
  qed
qed

lemma length_digits10_one: "1 < length (digits10 n) \<Longrightarrow> n \<noteq> 0"
proof
  assume "1 < length (digits10 n)" "n = 0"
  then show False by (simp add: digits10.simps [of 0])
qed

lemma digits10_leading:
  "\<not> (take 1 (digits10 n) = ''0'' \<and> 1 < length (digits10 n))"
proof
  assume a: "take 1 (digits10 n) = ''0'' \<and> 1 < length (digits10 n)"
  then have "n \<noteq> 0" using length_digits10_one by blast
  then have "hd (digits10 n) \<noteq> CHR ''0''" by (rule hd_digits10)
  moreover have "take 1 (digits10 n) = [hd (digits10 n)]"
    using digits10_nonempty [of n] by (cases "digits10 n") simp_all
  ultimately show False using a by simp
qed

lemma parse_number_digits10:
  assumes "\<not> is_digit c" "c \<noteq> CHR ''.''" "c \<noteq> CHR ''e''" "c \<noteq> CHR ''E''"
  shows "parse_number (digits10 n @ c # rest) = Inr (PInt (int n), c # rest)"
proof -
  obtain d ds where d: "digits10 n = d # ds"
    using digits10_nonempty [of n] by (cases "digits10 n") auto
  have "is_digit d" using digits10_digits [of d n] d by simp
  then have "d \<noteq> CHR ''-''" by (auto simp: is_digit_def)
  then have neg: "take 1 (digits10 n @ c # rest) \<noteq> ''-''" by (simp add: d)
  have tw: "takeWhile is_digit (digits10 n @ c # rest) = digits10 n"
    using assms(1) digits10_digits by (simp add: takeWhile_append2)
  have dw: "dropWhile is_digit (digits10 n @ c # rest) = c # rest"
    using assms(1) digits10_digits by (simp add: dropWhile_append2)
  show ?thesis
    using assms neg digits10_leading [of n] digits10_nonempty [of n]
    by (simp add: parse_number_def Let_def tw dw nat_of_digits_digits10)
qed

lemma parse_value_digit:
  assumes "cs \<noteq> []" "is_digit (hd cs)"
  shows "parse_value (Suc k) cs = parse_number cs"
proof -
  obtain c r where cs: "cs = c # r" using assms(1) by (cases cs) auto
  have n: "48 \<le> (of_char c :: nat)" "(of_char c :: nat) \<le> 57"
    using assms(2) by (simp_all add: cs is_digit_def)
  have "c \<noteq> CHR 0x22" "c \<noteq> CHR ''{''" "c \<noteq> CHR ''[''" "c \<noteq> CHR ''n''" "c \<noteq> CHR ''t''"
    "c \<noteq> CHR ''f''" "c \<noteq> CHR ''N''" "c \<noteq> CHR ''I''"
    using n by auto
  then show ?thesis by (auto simp: cs)
qed

subsection \<open>The header round trip\<close>

lemma json_quote_keys:
  "json_quote ''mid'' = CHR 0x22 # ''mid'' @ [CHR 0x22]"
  "json_quote ''orig_len'' = CHR 0x22 # ''orig_len'' @ [CHR 0x22]"
  "json_quote ''left_c_len'' = CHR 0x22 # ''left_c_len'' @ [CHR 0x22]"
  by (simp_all add: json_quote_def json_escape_char_def)

lemma json_dumps_header:
  "json_dumps (rp2_header m n l) = Some (rp2_header_text m n l)"
  by (simp add: rp2_header_def rp2_header_text_def py_str_int_def)

lemma parse_value_digits10:
  assumes "\<not> is_digit c" "c \<noteq> CHR ''.''" "c \<noteq> CHR ''e''" "c \<noteq> CHR ''E''"
  shows "parse_value (Suc k) (digits10 n @ c # rest) = Inr (PInt (int n), c # rest)"
proof -
  have "digits10 n @ c # rest \<noteq> []" by simp
  moreover have "is_digit (hd (digits10 n @ c # rest))"
    using digits10_nonempty [of n] digits10_digits [of "hd (digits10 n)" n] by simp
  ultimately have "parse_value (Suc k) (digits10 n @ c # rest)
      = parse_number (digits10 n @ c # rest)"
    by (rule parse_value_digit)
  then show ?thesis using assms by (simp add: parse_number_digits10)
qed

lemma not_digit_delims: "\<not> is_digit CHR '',''" "\<not> is_digit CHR ''}''"
  by (simp_all add: is_digit_def)

lemma skip_ws_simps:
  "skip_ws [] = []"
  "skip_ws (c # cs) = (if is_ws c then skip_ws cs else c # cs)"
  by (simp_all add: skip_ws_def)

lemma is_ws_simps:
  "is_ws CHR '' ''" "\<not> is_ws CHR 0x22" "\<not> is_ws CHR '':''" "\<not> is_ws CHR '',''"
  "\<not> is_ws CHR ''}''" "\<not> is_ws CHR ''{''"
  by (simp_all add: is_ws_def)

lemma skip_ws_digits10: "skip_ws (digits10 n @ rest) = digits10 n @ rest"
proof -
  obtain d ds where d: "digits10 n = d # ds"
    using digits10_nonempty [of n] by (cases "digits10 n") auto
  have "is_digit d" using digits10_digits [of d n] d by simp
  then have "\<not> is_ws d" by (auto simp: is_digit_def is_ws_def)
  then show ?thesis by (simp add: d skip_ws_simps)
qed

lemma parse_value_object:
  "parse_value (Suc k) (CHR ''{'' # r) =
     (if take 1 (skip_ws r) = ''}'' then Inr (PDict [], drop 1 (skip_ws r))
      else parse_members k [] (skip_ws r))"
  by simp

lemma parse_header:
  "parse_value (Suc (Suc (Suc (Suc (Suc k))))) (rp2_header_text m n l @ rest)
     = Inr (rp2_header m n l, rest)"
  by (simp add: rp2_header_text_def json_quote_keys skip_ws_simps is_ws_simps
      skip_ws_digits10 parse_value_digits10 parse_value_object not_digit_delims rp2_header_def
      del: parse_value.simps)

lemma length_header_text: "5 \<le> length (rp2_header_text m n l)"
  by (simp add: rp2_header_text_def json_quote_keys)

lemma skip_ws_header_text: "skip_ws (rp2_header_text m n l) = rp2_header_text m n l"
  by (simp add: rp2_header_text_def skip_ws_simps is_ws_simps)

lemma json_loads_header: "json_loads (rp2_header_text m n l) = Inr (rp2_header m n l)"
proof -
  define k where "k = 2 * length (rp2_header_text m n l) - 3"
  have k: "2 * length (rp2_header_text m n l) + 2 = Suc (Suc (Suc (Suc (Suc k))))"
    using length_header_text [of m n l] unfolding k_def by linarith
  have "parse_value (2 * length (rp2_header_text m n l) + 2) (rp2_header_text m n l @ [])
      = Inr (rp2_header m n l, [])"
    unfolding k by (rule parse_header)
  then show ?thesis
    by (simp add: json_loads_def skip_ws_header_text skip_ws_simps)
qed

lemma ascii_digits10: "list_all (\<lambda>c. (of_char c :: nat) < 128) (digits10 n)"
proof -
  have "(of_char c :: nat) < 128" if "c \<in> set (digits10 n)" for c
  proof -
    have "is_digit c" using that by (rule digits10_digits)
    then show ?thesis by (simp add: is_digit_def)
  qed
  then show ?thesis by (simp add: list_all_iff)
qed

lemma py_decode_header: "py_decode (rp2_header_text m n l) = Inr (rp2_header_text m n l)"
  by (simp add: py_decode_def rp2_header_text_def json_quote_keys ascii_digits10)

subsection \<open>The framing of a symmetric block\<close>

lemma half_length: "length xs div 2 \<le> length xs - length xs div 2"
  "length xs \<le> length xs div 2 \<longleftrightarrow> xs = []"
proof -
  show "length xs div 2 \<le> length xs - length xs div 2" by linarith
  have "length xs \<le> length xs div 2 \<longleftrightarrow> length xs = 0" by linarith
  then show "length xs \<le> length xs div 2 \<longleftrightarrow> xs = []" by simp
qed

lemma rp2_streams_eq:
  "rp2_streams data =
     (let mid = length data div 2;
          left_p = take mid data @ replicate (length data - mid - mid) 0
      in (left_p, map2 (-) left_p (map uminus (rev (drop mid data)))))"
  by (simp add: rp2_streams_def Let_def py_slice_to_nat py_slice_from_nat max_def min_def
      half_length)


lemma rp2_compress_direct:
  "estimate_gain data < 0 \<Longrightarrow>
     rp2_compress B data = Inr (bk_compress B (f32_tobytes (map f32_round data)), None)"
  by (simp add: rp2_compress_def Let_def)

lemma rp2_compress_symmetric:
  assumes "\<not> estimate_gain data < 0"
  shows "rp2_compress B data =
     (let c_left = bk_compress B (f32_tobytes (map f32_round (fst (rp2_streams data))));
          c_delta = bk_compress B (f32_tobytes (map f32_round (snd (rp2_streams data))));
          h_bytes = rp2_header_text (length data div 2) (length data) (length c_left)
      in if length h_bytes < 2 ^ 32
         then Inr (le4 (length h_bytes) @ h_bytes @ c_left @ c_delta, Some (length data div 2))
         else Inl OverflowError)"
  using assms
  by (simp add: rp2_compress_def Let_def json_dumps_header to_bytes4_def split_beta)

lemma rp2_split_framed:
  assumes "length (rp2_header_text m n (length c_left)) < 2 ^ 32"
  shows "rp2_split (le4 (length (rp2_header_text m n (length c_left)))
                     @ rp2_header_text m n (length c_left) @ c_left @ c_delta)
         = Inr (rp2_header m n (length c_left), c_left, c_delta)"
proof -
  define hb where "hb = rp2_header_text m n (length c_left)"
  define block where "block = le4 (length hb) @ hb @ c_left @ c_delta"
  have p: "py_slice_to block 4 = le4 (length hb)"
    using py_slice_to_nat [of block 4] by (simp add: block_def length_le4)
  have h: "from_bytes_le (py_slice_to block 4) = length hb"
    using assms by (simp add: p from_bytes_le_le4 hb_def)
  have s1: "py_slice block 4 (4 + int (length hb)) = hb"
    using py_slice_nat [of block 4 "4 + length hb"] by (simp add: block_def length_le4)
  have s2: "py_slice block (4 + int (length hb)) (4 + int (length hb) + int (length c_left))
      = c_left"
    using py_slice_nat [of block "4 + length hb" "4 + length hb + length c_left"]
    by (simp add: block_def length_le4)
  have s3: "py_slice_from block (4 + int (length hb) + int (length c_left)) = c_delta"
    using py_slice_from_nat [of block "4 + length hb + length c_left"]
    by (simp add: block_def length_le4)
  have g: "py_getitem (rp2_header m n (length c_left)) ''left_c_len''
      = Inr (PInt (int (length c_left)))"
    by (simp add: py_getitem_def rp2_header_def)
  have "rp2_split block = Inr (rp2_header m n (length c_left), c_left, c_delta)"
    unfolding rp2_split_def h Let_def s1
    by (simp add: hb_def py_decode_header json_loads_header g py_as_int_def
        s2 [unfolded hb_def] s3 [unfolded hb_def])
  then show ?thesis by (simp add: block_def hb_def)
qed

subsection \<open>Symmetric blocks\<close>

lemma rp2_compress_seam:
  assumes "rp2_compress B data = Inr (block, Some mid)"
  shows "\<not> estimate_gain data < 0" "mid = length data div 2"
proof -
  show g: "\<not> estimate_gain data < 0"
    using assms by (auto simp: rp2_compress_direct)
  show "mid = length data div 2"
    using assms rp2_compress_symmetric [OF g, of B]
    by (simp add: Let_def split: if_splits)
qed

lemma f32_round_simps:
  "f32_round 0 = 0" "f32_round 1 = 0x3F800000" "f32_round (- 1) = 0xBF800000"
  unfolding f32_round_def Let_def
  by (simp_all add: ilog2_def pow2_def round_half_even_def compute_floorlog)

lemma mirror_gain: "estimate_gain (replicate 256 1 @ replicate 256 (- 1)) = 6192"
  by (simp add: estimate_gain_eq eg_left_eq eg_right_f_eq np_var_def Let_def sum_list_replicate
      zip_replicate)

lemma mirror_streams:
  "rp2_streams (replicate 256 1 @ replicate 256 (- 1)) = (replicate 256 1, replicate 256 0)"
  by (simp add: rp2_streams_eq Let_def zip_replicate)

lemma header_text_256_512_1025:
  "rp2_header_text 256 512 1025
     = ''{'' @ json_quote ''mid'' @ '': 256, '' @ json_quote ''orig_len'' @ '': 512, ''
        @ json_quote ''left_c_len'' @ '': 1025}''"
  by code_simp

lemma length_header_text_256_512_1025: "length (rp2_header_text 256 512 1025) = 49"
  by (simp add: header_text_256_512_1025 json_quote_keys)

lemma stored_backend_simps:
  "bk_compress stored_backend b = CHR ''S'' # b"
  "bk_decompress stored_backend [] = Some []"
  "bk_decompress stored_backend (c # r) = (if c = CHR ''S'' then Some r else None)"
  by (simp_all add: stored_backend_def)

lemma lossless_stored_backend: "lossless stored_backend"
  by (simp add: lossless_def stored_backend_simps)

lemma mirror_compress:
  "rp2_compress stored_backend (replicate 256 1 @ replicate 256 (- 1))
     = Inr (le4 49 @ rp2_header_text 256 512 1025
              @ (CHR ''S'' # f32_tobytes (replicate 256 0x3F800000))
              @ (CHR ''S'' # f32_tobytes (replicate 256 0)), Some 256)"
proof -
  have g: "\<not> estimate_gain (replicate 256 1 @ replicate 256 (- 1)) < 0"
    by (simp add: mirror_gain)
  show ?thesis
    by (simp add: rp2_compress_symmetric [OF g] mirror_streams Let_def f32_round_simps
        stored_backend_simps length_f32_tobytes length_header_text_256_512_1025)
qed

text \<open>
  C4. Every symmetric block that \<open>rp2_compress\<close> emits is the 4-byte little-endian
  length of the serialized header, the header record with \<open>mid\<close>, \<open>orig_len = n\<close> and
  \<open>left_c_len = len(c_left)\<close>, then the \<open>left_c_len\<close> bytes of the compressed padded left
  half, then the compressed delta as the remainder; and the decoder's slicing gives back
  that header and exactly these two streams.
\<close>

theorem rp2_symmetric_block_layout:
  assumes "rp2_compress B data = Inr (block, Some mid)"
  shows "let c_left = bk_compress B (f32_tobytes (map f32_round (fst (rp2_streams data))));
             c_delta = bk_compress B (f32_tobytes (map f32_round (snd (rp2_streams data))));
             header = rp2_header mid (length data) (length c_left);
             h_bytes = rp2_header_text mid (length data) (length c_left)
         in json_dumps header = Some h_bytes
            \<and> to_bytes4 (length h_bytes) = Inr (le4 (length h_bytes))
            \<and> from_bytes_le (le4 (length h_bytes)) = length h_bytes
            \<and> block = le4 (length h_bytes) @ h_bytes @ c_left @ c_delta
            \<and> rp2_split block = Inr (header, c_left, c_delta)"
proof -
  define c_left where
    "c_left = bk_compress B (f32_tobytes (map f32_round (fst (rp2_streams data))))"
  define c_delta where
    "c_delta = bk_compress B (f32_tobytes (map f32_round (snd (rp2_streams data))))"
  define h_bytes where "h_bytes = rp2_header_text mid (length data) (length c_left)"
  have g: "\<not> estimate_gain data < 0" and mid: "mid = length data div 2"
    using rp2_compress_seam [OF assms] by simp_all
  have r: "rp2_compress B data =
      (if length h_bytes < 2 ^ 32
       then Inr (le4 (length h_bytes) @ h_bytes @ c_left @ c_delta, Some mid)
       else Inl OverflowError)"
    using rp2_compress_symmetric [OF g, of B]
    by (simp add: Let_def c_left_def c_delta_def h_bytes_def mid)
  have small: "length h_bytes < 2 ^ 32"
    using assms r by (simp split: if_splits)
  have block: "block = le4 (length h_bytes) @ h_bytes @ c_left @ c_delta"
    using assms r small by simp
  have split: "rp2_split block = Inr (rp2_header mid (length data) (length c_left), c_left, c_delta)"
    using rp2_split_framed [of mid "length data" c_left c_delta] small
    by (simp add: block h_bytes_def)
  show ?thesis
    using small block split
    by (simp add: Let_def json_dumps_header to_bytes4_def from_bytes_le_le4
        c_left_def [symmetric] c_delta_def [symmetric] h_bytes_def [symmetric])
qed

theorem rp2_symmetric_block_layout_witness:
  "rp2_compress stored_backend (replicate 256 1 @ replicate 256 (- 1))
     = Inr (le4 49 @ rp2_header_text 256 512 1025
              @ (CHR ''S'' # f32_tobytes (replicate 256 0x3F800000))
              @ (CHR ''S'' # f32_tobytes (replicate 256 0)), Some 256)
   \<and> rp2_split (le4 49 @ rp2_header_text 256 512 1025
              @ (CHR ''S'' # f32_tobytes (replicate 256 0x3F800000))
              @ (CHR ''S'' # f32_tobytes (replicate 256 0)))
     = Inr (rp2_header 256 512 1025, CHR ''S'' # f32_tobytes (replicate 256 0x3F800000),
            CHR ''S'' # f32_tobytes (replicate 256 0))"
  using rp2_symmetric_block_layout [OF mirror_compress]
  by (simp add: Let_def mirror_compress mirror_streams f32_round_simps stored_backend_simps
      length_f32_tobytes length_header_text_256_512_1025)

subsection \<open>Round trips\<close>

lemma decompress_lossless:
  "lossless B \<Longrightarrow> decompress_or_raise B (bk_compress B b) = Inr b"
  by (simp add: lossless_def decompress_or_raise_def)

lemma header_fields:
  "py_getitem (rp2_header m n l) ''mid'' = Inr (PInt (int m))"
  "py_getitem (rp2_header m n l) ''orig_len'' = Inr (PInt (int n))"
  "py_getitem (rp2_header m n l) ''left_c_len'' = Inr (PInt (int l))"
  by (simp_all add: py_getitem_def rp2_header_def)



lemma approx_decode_direct:
  "lossless B \<Longrightarrow>
     approx_decode B None (bk_compress B (f32_tobytes ws)) = Inr ws"
  by (simp add: approx_decode_def decompress_lossless np_frombuffer_f32_tobytes)

text \<open>
  C2. A sequence shorter than 512, or one whose delta variance is not below its own
  variance, is encoded as a direct block (the compressed float32 bytes, no seam), and
  with a lossless backend decoding that block gives the sequence rounded to float32.
\<close>

theorem rp2_direct_round_trip:
  assumes "lossless B"
    and "length data < 512
         \<or> np_var data \<le> np_var (map2 (-) (take (length data div 2) data)
               (map uminus (rev (take (length data div 2) (drop (length data div 2) data)))))"
  shows "rp2_compress B data = Inr (bk_compress B (f32_tobytes (map f32_round data)), None)
         \<and> approx_decode B None (bk_compress B (f32_tobytes (map f32_round data)))
             = Inr (map f32_round data)"
proof -
  have "estimate_gain data = - 1"
    using assms(2) by (simp add: estimate_gain_eq eg_left_eq eg_right_f_eq)
  then have "estimate_gain data < 0" by simp
  then show ?thesis
    using assms(1) by (simp add: rp2_compress_direct approx_decode_direct)
qed

theorem rp2_direct_round_trip_witness:
  "lossless stored_backend \<and> length [1, - 1 :: real] < 512
   \<and> rp2_compress stored_backend [1, - 1]
       = Inr (bk_compress stored_backend (f32_tobytes [0x3F800000, 0xBF800000]), None)
   \<and> approx_decode stored_backend None
         (bk_compress stored_backend (f32_tobytes [0x3F800000, 0xBF800000]))
       = Inr [0x3F800000, 0xBF800000]"
  using rp2_direct_round_trip [of stored_backend "[1, - 1]"] lossless_stored_backend
  by (simp add: f32_round_simps)
















subsection \<open>Thresholding\<close>

lemma sort_map_mono:
  fixes g :: "real \<Rightarrow> real"
  assumes "mono g"
  shows "sort (map g xs) = map g (sort xs)"
proof (rule properties_for_sort)
  show "mset (map g (sort xs)) = mset (map g xs)" by simp
  have "sorted (sort xs)" by simp
  then show "sorted (map g (sort xs))"
    using assms by (auto simp: sorted_iff_nth_mono monoD)
qed

lemma np_median_shrunk:
  assumes nonneg: "\<forall>y \<in> set a. 0 \<le> y"
    and t: "2 * np_median a \<le> t"
  shows "np_median (map (\<lambda>y. max (y - t) 0) a) = 0"
proof (cases "a = []")
  case True
  then show ?thesis by (simp add: np_median_def)
next
  case False
  define s where "s = sort a"
  define n where "n = length a"
  define g where "g = (\<lambda>y::real. max (y - t) 0)"
  have n: "0 < n" using False by (simp add: n_def)
  have len: "length s = n" by (simp add: s_def n_def)
  have sorted: "sorted s" by (simp add: s_def)
  have pos: "0 \<le> s ! i" if "i < n" for i
  proof -
    have "s ! i \<in> set s" using that len by simp
    then show ?thesis using nonneg by (simp add: s_def)
  qed
  have mid: "n div 2 < n" using n by simp
  have top: "s ! (n div 2) \<le> t"
  proof (cases "odd n")
    case True
    then have "np_median a = s ! (n div 2)"
      using n by (simp add: np_median_def s_def n_def Let_def)
    moreover have "0 \<le> s ! (n div 2)" using pos mid by simp
    ultimately show ?thesis using t by simp
  next
    case even: False
    then have "np_median a = (s ! (n div 2 - 1) + s ! (n div 2)) / 2"
      using n by (simp add: np_median_def s_def n_def Let_def)
    moreover have "0 \<le> s ! (n div 2 - 1)" using pos mid by simp
    ultimately show ?thesis using t by simp
  qed
  have low: "g (s ! i) = 0" if "i \<le> n div 2" for i
  proof -
    have "s ! i \<le> s ! (n div 2)"
      using sorted that mid len by (simp add: sorted_iff_nth_mono)
    then show ?thesis using top by (simp add: g_def)
  qed
  have "mono g" by (auto simp: g_def mono_def max_def)
  then have srt: "sort (map g a) = map g s"
    by (simp add: sort_map_mono s_def)
  have nth: "map g s ! i = 0" if "i \<le> n div 2" for i
  proof -
    have "i < length s" using that mid len by simp
    then show ?thesis using low [OF that] by simp
  qed
  have "np_median (map g a) = 0"
    using n nth [of "n div 2"] nth [of "n div 2 - 1"]
    by (simp add: np_median_def srt n_def Let_def)
  then show ?thesis by (simp add: g_def)
qed

lemma np_median_nonneg:
  assumes nonneg: "\<forall>y \<in> set a. 0 \<le> y"
  shows "0 \<le> np_median a"
proof (cases "a = []")
  case True
  then show ?thesis by (simp add: np_median_def)
next
  case False
  have pos: "0 \<le> sort a ! i" if "i < length a" for i
  proof -
    have "i < length (sort a)" using that by simp
    then have "sort a ! i \<in> set (sort a)" by (rule nth_mem)
    then show ?thesis using nonneg by simp
  qed
  have "0 < length a" using False by simp
  then have "length a div 2 < length a" "length a div 2 - 1 < length a"
    by linarith+
  then show ?thesis
    using pos by (simp add: np_median_def Let_def)
qed

lemma those_opt_None_iff: "those_opt xs = None \<longleftrightarrow> None \<in> set xs"
proof (induction xs)
  case Nil
  show ?case by simp
next
  case (Cons x xs)
  then show ?case by (cases x) (auto split: option.splits)
qed

lemma those_opt_Some_map: "those_opt xs = Some ys \<Longrightarrow> xs = map Some ys"
proof (induction xs arbitrary: ys)
  case Nil
  then show ?case by simp
next
  case (Cons x xs)
  then show ?case by (cases x) (auto split: option.splits)
qed

lemma those_opt_map_Some_id: "those_opt (map Some xs) = Some xs"
  by (induction xs) simp_all

lemma f64_val_None: "f64_val x = None \<longleftrightarrow> x = NaN"
  by (cases x) (simp_all add: f64_val_def)

lemma f64_val_np_abs: "f64_val (np_abs x) = map_option abs (f64_val x)"
  by (cases x) (simp_all add: f64_val_def np_abs_def)

lemma np_abs_NaN: "np_abs x = NaN \<longleftrightarrow> x = NaN"
  by (cases x) (simp_all add: np_abs_def)

lemma np_array_equal_NaN_left: "NaN \<in> set a \<Longrightarrow> \<not> np_array_equal a b"
  by (auto simp: np_array_equal_def list_all2_conv_all_nth in_set_conv_nth f64_eq_def f64_val_def)

lemma np_array_equal_NaN_right: "NaN \<in> set b \<Longrightarrow> \<not> np_array_equal a b"
  by (auto simp: np_array_equal_def list_all2_conv_all_nth in_set_conv_nth f64_eq_def f64_val_def
      split: option.splits)

lemma np_median_f64_NaN: "NaN \<in> set d \<Longrightarrow> np_median_f64 (map np_abs d) = None"
proof -
  assume "NaN \<in> set d"
  moreover have "f64_val (np_abs NaN) = None"
    by (simp add: f64_val_def np_abs_def)
  ultimately have "None \<in> (\<lambda>x. f64_val (np_abs x)) ` set d"
    by (metis image_eqI)
  then have "None \<in> set (map f64_val (map np_abs d))"
    by (simp add: image_image)
  then have "those_opt (map f64_val (map np_abs d)) = None"
    by (simp only: those_opt_None_iff)
  then show ?thesis
    by (simp add: np_median_f64_def)
qed

lemma detail_threshold_NaN:
  assumes "NaN \<in> set d"
  shows "detail_threshold f d = map (\<lambda>x. NaN) d"
  using np_median_f64_NaN [OF assms] by (simp add: detail_threshold_def pywt_soft_def)

lemma detail_threshold_finite:
  assumes "NaN \<notin> set d" and "d \<noteq> []"
  shows "detail_threshold f d
         = map (pywt_soft (Some (f * np_median (map (\<lambda>x. \<bar>the (f64_val x)\<bar>) d) / (6745 / 10000)))) d"
proof -
  have "f64_val (np_abs x) = Some \<bar>the (f64_val x)\<bar>" if "x \<noteq> NaN" for x
    using that by (cases x) (simp_all add: f64_val_def np_abs_def)
  then have "map f64_val (map np_abs d) = map Some (map (\<lambda>x. \<bar>the (f64_val x)\<bar>) d)"
    using assms(1) by (induction d) auto
  then have "those_opt (map f64_val (map np_abs d)) = Some (map (\<lambda>x. \<bar>the (f64_val x)\<bar>) d)"
    by (simp only: those_opt_map_Some_id)
  then show ?thesis
    using assms(2) by (simp add: detail_threshold_def np_median_f64_def)
qed

lemma np_median_zero_mem:
  assumes nonneg: "\<forall>y \<in> set a. 0 \<le> y" and ne: "a \<noteq> []" and med: "np_median a = 0"
  shows "0 \<in> set a"
proof -
  define s where "s = sort a"
  define n where "n = length a"
  have n: "0 < n" using ne by (simp add: n_def)
  have mem: "s ! i \<in> set a" if "i < n" for i
  proof -
    have "i < length s" using that by (simp add: s_def n_def)
    then have "s ! i \<in> set s" by (rule nth_mem)
    then show ?thesis by (simp add: s_def)
  qed
  have k: "n div 2 < n" "n div 2 - 1 < n" using n by linarith+
  show ?thesis
  proof (cases "odd n")
    case True
    then have "s ! (n div 2) = 0"
      using med n by (simp add: np_median_def s_def n_def Let_def)
    then show ?thesis using mem [OF k(1)] by simp
  next
    case False
    then have "(s ! (n div 2 - 1) + s ! (n div 2)) / 2 = 0"
      using med n by (simp add: np_median_def s_def n_def Let_def)
    moreover have "0 \<le> s ! (n div 2 - 1)" "0 \<le> s ! (n div 2)"
      using mem [OF k(1)] mem [OF k(2)] nonneg by auto
    ultimately have "s ! (n div 2) = 0" by simp
    then show ?thesis using mem [OF k(1)] by simp
  qed
qed

lemma pywt_soft_zero_thresh:
  "f64_val x = Some 0 \<Longrightarrow> pywt_soft (Some 0) x = NaN"
  by (cases x) (simp_all add: pywt_soft_def f64_val_def)

lemma pywt_soft_abs:
  assumes "0 < t" and "x \<noteq> NaN"
  shows "f64_val (pywt_soft (Some t) x) = Some (sgn (the (f64_val x)) * max (\<bar>the (f64_val x)\<bar> - t) 0)"
proof (cases x)
  case (Fin v)
  show ?thesis
  proof (cases "v = 0")
    case True
    then show ?thesis using assms Fin by (simp add: pywt_soft_def f64_val_def)
  next
    case False
    then have "v * (1 - t / \<bar>v\<bar>) = sgn v * (\<bar>v\<bar> - t)"
      by (simp add: sgn_real_def field_simps)
    moreover have "1 - t / \<bar>v\<bar> \<le> 0 \<longleftrightarrow> \<bar>v\<bar> - t \<le> 0"
      using False by (simp add: field_simps)
    ultimately show ?thesis
      using assms Fin False by (auto simp: pywt_soft_def f64_val_def Let_def max_def)
  qed
next
  case NegZero
  then show ?thesis using assms by (simp add: pywt_soft_def f64_val_def)
next
  case NaN
  then show ?thesis using assms by simp
qed

lemma pywt_soft_not_NaN:
  "0 < t \<Longrightarrow> x \<noteq> NaN \<Longrightarrow> pywt_soft (Some t) x \<noteq> NaN"
  using pywt_soft_abs [of t x] by (auto simp: f64_val_def)

lemma detail_threshold_zero_NaN:
  assumes ne: "d \<noteq> []" and fin: "NaN \<notin> set d"
    and med: "np_median (map (\<lambda>x. \<bar>the (f64_val x)\<bar>) d) = 0"
  shows "NaN \<in> set (detail_threshold f d)"
proof -
  have "0 \<in> set (map (\<lambda>x. \<bar>the (f64_val x)\<bar>) d)"
    using ne med by (intro np_median_zero_mem) auto
  then obtain x where x: "x \<in> set d" "\<bar>the (f64_val x)\<bar> = 0" by auto
  then have "x \<noteq> NaN" using fin by auto
  then have "f64_val x = Some 0" using x(2) by (cases x) (simp_all add: f64_val_def)
  then have "pywt_soft (Some 0) x = NaN" by (rule pywt_soft_zero_thresh)
  then have "NaN \<in> set (map (pywt_soft (Some 0)) d)" using x(1) by force
  then show ?thesis using detail_threshold_finite [OF fin ne, of f] med by simp
qed

lemma detail_threshold_twice_NaN:
  assumes ne: "d \<noteq> []" and f: "2 \<le> f"
  shows "NaN \<in> set (detail_threshold f (detail_threshold f d))"
proof -
  define e where "e = detail_threshold f d"
  have len: "length e = length d" by (simp add: e_def detail_threshold_def)
  then have ene: "e \<noteq> []" using ne by auto
  have all_nan: "NaN \<in> set (detail_threshold f e)" if "NaN \<in> set e"
    using detail_threshold_NaN [OF that, of f] ene by (cases e) simp_all
  show ?thesis
  proof (cases "NaN \<in> set d")
    case True
    then have "e = map (\<lambda>x. NaN) d" by (simp add: e_def detail_threshold_NaN)
    then have "NaN \<in> set e" using ne by (cases d) simp_all
    then show ?thesis using all_nan by (simp add: e_def)
  next
    case fin: False
    define a where "a = map (\<lambda>x. \<bar>the (f64_val x)\<bar>) d"
    define t where "t = f * np_median a / (6745 / 10000)"
    have nonneg: "\<forall>y \<in> set a. 0 \<le> y" by (auto simp: a_def)
    have m0: "0 \<le> np_median a" using nonneg by (rule np_median_nonneg)
    have e: "e = map (pywt_soft (Some t)) d"
      by (simp add: e_def t_def a_def detail_threshold_finite [OF fin ne])
    show ?thesis
    proof (cases "np_median a = 0")
      case True
      then have "NaN \<in> set e"
        unfolding e_def using detail_threshold_zero_NaN [OF ne fin] by (simp add: a_def)
      then show ?thesis using all_nan by (simp add: e_def)
    next
      case False
      then have mpos: "0 < np_median a" using m0 by simp
      have "2 * np_median a \<le> (f / (6745 / 10000)) * np_median a"
        using f m0 by (intro mult_right_mono) simp_all
      then have t2: "2 * np_median a \<le> t" by (simp add: t_def)
      then have tpos: "0 < t" using mpos by simp
      have efin: "NaN \<notin> set e"
      proof
        assume "NaN \<in> set e"
        then obtain x where "x \<in> set d" "pywt_soft (Some t) x = NaN" by (auto simp: e)
        then show False using fin tpos pywt_soft_not_NaN [of t x] by auto
      qed
      have dfin: "x \<noteq> NaN" if "x \<in> set d" for x
        using fin that by auto
      have "\<bar>the (f64_val (pywt_soft (Some t) x))\<bar> = max (\<bar>the (f64_val x)\<bar> - t) 0"
        if "x \<in> set d" for x
        using pywt_soft_abs [OF tpos dfin [OF that]] tpos
        by (auto simp: abs_mult max_def sgn_real_def)
      then have "map (\<lambda>x. \<bar>the (f64_val x)\<bar>) e = map (\<lambda>y. max (y - t) 0) a"
        by (simp add: e a_def)
      then have "np_median (map (\<lambda>x. \<bar>the (f64_val x)\<bar>) e) = 0"
        using np_median_shrunk [OF nonneg t2] by simp
      then show ?thesis
        using detail_threshold_zero_NaN [OF ene efin] by (simp add: e_def)
    qed
  qed
qed

lemma detail_threshold_zero_factor:
  assumes "\<forall>x \<in> set d. \<exists>v. x = Fin v \<and> v \<noteq> 0"
  shows "detail_threshold 0 d = d"
proof (cases "d = []")
  case True
  then show ?thesis by (simp add: detail_threshold_def)
next
  case False
  have fin: "NaN \<notin> set d" using assms by auto
  have "pywt_soft (Some 0) x = x" if "x \<in> set d" for x
    using assms that by (auto simp: pywt_soft_def)
  then show ?thesis
    using detail_threshold_finite [OF fin False, of 0] by (simp add: map_idI)
qed

lemma np_array_equal_refl:
  assumes "NaN \<notin> set d"
  shows "np_array_equal d d"
proof -
  have "f64_eq x x" if "x \<in> set d" for x
    using assms that by (cases x) (auto simp: f64_eq_def f64_val_def)
  then show ?thesis by (simp add: np_array_equal_def list_all2_same)
qed


text \<open>
  C6, counterexample. At the default factor 2 the array \<open>[-1, 2, 30]\<close> has threshold
  \<open>2 * 2 / 0.6745\<close>, about 5.93: the first pass gives \<open>[-0.0, 0.0, 24.07]\<close>. The median of
  the magnitudes of that result is 0, so the second pass has threshold 0, and
  \<open>0 * clip(1 - 0 / 0, 0)\<close> is NaN at both zeros: thresholding twice differs from
  thresholding once. With the factor \<open>0.33725\<close> the array \<open>[1, 2, 3]\<close> has threshold 1 and
  becomes \<open>[0, 1, 2]\<close>, whose median is 1, so the second pass shrinks again, by \<open>0.5\<close>.
\<close>

theorem detail_threshold_idempotent_counterexample:
  "detail_threshold 2 [Fin (- 1), Fin 2, Fin 30] = [NegZero, Fin 0, Fin (32470 / 1349)]
   \<and> detail_threshold 2 (detail_threshold 2 [Fin (- 1), Fin 2, Fin 30])
       = [NaN, NaN, Fin (32470 / 1349)]
   \<and> \<not> np_array_equal (detail_threshold 2 (detail_threshold 2 [Fin (- 1), Fin 2, Fin 30]))
          (detail_threshold 2 [Fin (- 1), Fin 2, Fin 30])
   \<and> detail_threshold (1349 / 4000) [Fin 1, Fin 2, Fin 3] = [Fin 0, Fin 1, Fin 2]
   \<and> detail_threshold (1349 / 4000) (detail_threshold (1349 / 4000) [Fin 1, Fin 2, Fin 3])
       = [Fin 0, Fin (1 / 2), Fin (3 / 2)]
   \<and> \<not> np_array_equal
          (detail_threshold (1349 / 4000) (detail_threshold (1349 / 4000) [Fin 1, Fin 2, Fin 3]))
          (detail_threshold (1349 / 4000) [Fin 1, Fin 2, Fin 3])"
proof -
  have a: "detail_threshold 2 [Fin (- 1), Fin 2, Fin 30] = [NegZero, Fin 0, Fin (32470 / 1349)]"
    by (simp add: detail_threshold_def np_median_f64_def np_median_def np_abs_def f64_val_def
        pywt_soft_def)
  have b: "detail_threshold 2 [NegZero, Fin 0, Fin (32470 / 1349)]
           = [NaN, NaN, Fin (32470 / 1349)]"
    by (simp add: detail_threshold_def np_median_f64_def np_median_def np_abs_def f64_val_def
        pywt_soft_def)
  have c: "detail_threshold (1349 / 4000) [Fin 1, Fin 2, Fin 3] = [Fin 0, Fin 1, Fin 2]"
    by (simp add: detail_threshold_def np_median_f64_def np_median_def np_abs_def f64_val_def
        pywt_soft_def)
  have d: "detail_threshold (1349 / 4000) [Fin 0, Fin 1, Fin 2] = [Fin 0, Fin (1 / 2), Fin (3 / 2)]"
    by (simp add: detail_threshold_def np_median_f64_def np_median_def np_abs_def f64_val_def
        pywt_soft_def)
  show ?thesis
    by (simp add: a b c d np_array_equal_def f64_eq_def f64_val_def)
qed

text \<open>
  C6 (as amended). Thresholding is not idempotent at the default factor. For every
  non-empty detail array and every factor of at least 2, the first pass leaves an array
  whose magnitudes have median 0 (or that holds a NaN), so the second pass has threshold 0
  (or NaN) and \<^verbatim>\<open>pywt.threshold\<close> turns zeros into NaN: the second result holds a NaN and is
  not equal to the first. Thresholding twice is the same as thresholding once on the empty
  array, and with factor 0 on an array of non-zero numbers, where one pass already
  changes nothing.
\<close>

theorem detail_threshold_idempotent:
  "detail_threshold thresh_factor [] = []
   \<and> (thresh_factor = 0 \<and> (\<forall>x \<in> set d. \<exists>v. x = Fin v \<and> v \<noteq> 0)
        \<longrightarrow> detail_threshold thresh_factor d = d
            \<and> np_array_equal (detail_threshold thresh_factor (detail_threshold thresh_factor d))
                  (detail_threshold thresh_factor d))
   \<and> (2 \<le> thresh_factor \<and> d \<noteq> []
        \<longrightarrow> NaN \<in> set (detail_threshold thresh_factor (detail_threshold thresh_factor d))
            \<and> \<not> np_array_equal
                  (detail_threshold thresh_factor (detail_threshold thresh_factor d))
                  (detail_threshold thresh_factor d))"
proof (intro conjI impI)
  show "detail_threshold thresh_factor [] = []"
    by (simp add: detail_threshold_def)
next
  assume h: "thresh_factor = 0 \<and> (\<forall>x \<in> set d. \<exists>v. x = Fin v \<and> v \<noteq> 0)"
  then show id: "detail_threshold thresh_factor d = d"
    by (simp add: detail_threshold_zero_factor)
  have "NaN \<notin> set d" using h by auto
  then have "np_array_equal d d" by (rule np_array_equal_refl)
  then show "np_array_equal (detail_threshold thresh_factor (detail_threshold thresh_factor d))
               (detail_threshold thresh_factor d)"
    by (simp add: id)
next
  assume h: "2 \<le> thresh_factor \<and> d \<noteq> []"
  then show nan: "NaN \<in> set (detail_threshold thresh_factor (detail_threshold thresh_factor d))"
    by (simp add: detail_threshold_twice_NaN)
  then show "\<not> np_array_equal
                 (detail_threshold thresh_factor (detail_threshold thresh_factor d))
                 (detail_threshold thresh_factor d)"
    by (rule np_array_equal_NaN_left)
qed

theorem detail_threshold_idempotent_witness:
  "detail_threshold 0 [Fin 1, Fin (- 2), Fin 3] = [Fin 1, Fin (- 2), Fin 3]
   \<and> np_array_equal (detail_threshold 0 (detail_threshold 0 [Fin 1, Fin (- 2), Fin 3]))
        (detail_threshold 0 [Fin 1, Fin (- 2), Fin 3])
   \<and> (2 :: real) \<le> 2
   \<and> NaN \<in> set (detail_threshold 2 (detail_threshold 2 [Fin 1, Fin 2, Fin 30]))
   \<and> \<not> np_array_equal (detail_threshold 2 (detail_threshold 2 [Fin 1, Fin 2, Fin 30]))
          (detail_threshold 2 [Fin 1, Fin 2, Fin 30])"
  using detail_threshold_idempotent [of 0 "[Fin 1, Fin (- 2), Fin 3]"]
    detail_threshold_idempotent [of 2 "[Fin 1, Fin 2, Fin 30]"]
  by (simp add: np_array_equal_def f64_eq_def f64_val_def)

subsection \<open>Packing\<close>

lemma those_opt_map_Some: "those_opt (map (\<lambda>x. Some (f x)) xs) = Some (map f xs)"
  by (induction xs) simp_all

lemma py_str_int_nat: "py_str_int (int n) = digits10 n"
  by (simp add: py_str_int_def)

lemma json_dumps_packed:
  "json_dumps (apply_default (packed_dict approx_comp details seam orig_len family levels))
     = Some (packed_text approx_comp details seam orig_len family levels)"
  by (cases seam)
    (simp_all add: packed_dict_def packed_text_def py_str_int_nat o_def those_opt_map_Some)

lemma pack_bytes_packed:
  "pack_bytes B (packed_dict approx_comp details seam orig_len family levels)
     = Inr (bk_compress B (packed_text approx_comp details seam orig_len family levels))"
  by (simp add: pack_bytes_def json_dumps_packed)

subsection \<open>The family selector\<close>

lemma family_step_cases:
  "try_family B T data levels tf f = Inl e \<Longrightarrow> family_step B T data levels tf f st = st"
  "try_family B T data levels tf f = Inr (c, co, sm) \<Longrightarrow> enat (length c) < best_size st \<Longrightarrow>
     family_step B T data levels tf f st =
       \<lparr>best_compressed = Some c, best_size = enat (length c), best_family = Some f,
        best_coeffs = Some co, best_seam = sm\<rparr>"
  "try_family B T data levels tf f = Inr (c, co, sm) \<Longrightarrow> \<not> enat (length c) < best_size st \<Longrightarrow>
     family_step B T data levels tf f st = st"
  by (simp_all add: family_step_def Let_def)

lemma fold_family_step:
  fixes B T data levels tf
  defines "tr \<equiv> try_family B T data levels tf"
    and "step \<equiv> family_step B T data levels tf"
  shows "(fold step fs best_init = best_init \<and> (\<forall>f \<in> set fs. \<forall>r. tr f \<noteq> Inr r))
       \<or> (\<exists>i c co sm. i < length fs \<and> tr (fs ! i) = Inr (c, co, sm)
            \<and> fold step fs best_init =
                 \<lparr>best_compressed = Some c, best_size = enat (length c),
                  best_family = Some (fs ! i), best_coeffs = Some co, best_seam = sm\<rparr>
            \<and> (\<forall>j c' co' sm'. j < length fs \<longrightarrow> tr (fs ! j) = Inr (c', co', sm') \<longrightarrow>
                  length c \<le> length c' \<and> (j < i \<longrightarrow> length c < length c')))"
    (is "?none fs \<or> ?some fs")
proof (induction fs rule: rev_induct)
  case Nil
  then show ?case by simp
next
  case (snoc x xs)
  define st where "st = fold step xs best_init"
  have fold_snoc: "fold step (xs @ [x]) best_init = step x st"
    by (simp add: st_def)
  show ?case
  proof (cases "tr x")
    case (Inl e)
    then have same: "step x st = st"
      unfolding tr_def step_def by (rule family_step_cases(1))
    from snoc.IH show ?thesis
    proof
      assume "?none xs"
      then have "?none (xs @ [x])"
        using Inl same by (simp add: fold_snoc st_def)
      then show ?thesis ..
    next
      assume "?some xs"
      then obtain i c co sm where i: "i < length xs" "tr (xs ! i) = Inr (c, co, sm)"
        "fold step xs best_init =
           \<lparr>best_compressed = Some c, best_size = enat (length c),
            best_family = Some (xs ! i), best_coeffs = Some co, best_seam = sm\<rparr>"
        "\<forall>j c' co' sm'. j < length xs \<longrightarrow> tr (xs ! j) = Inr (c', co', sm') \<longrightarrow>
            length c \<le> length c' \<and> (j < i \<longrightarrow> length c < length c')"
        by blast
      have min: "length c \<le> length c' \<and> (j < i \<longrightarrow> length c < length c')"
        if "j < length (xs @ [x])" "tr ((xs @ [x]) ! j) = Inr (c', co', sm')" for j c' co' sm'
      proof (cases "j < length xs")
        case True
        then show ?thesis using that i(4) by (simp add: nth_append)
      next
        case False
        then have "j = length xs" using that(1) by simp
        then show ?thesis using that(2) Inl by simp
      qed
      have a: "i < length (xs @ [x])" using i(1) by simp
      have b: "tr ((xs @ [x]) ! i) = Inr (c, co, sm)" using i(1,2) by (simp add: nth_append)
      have d: "fold step (xs @ [x]) best_init =
           \<lparr>best_compressed = Some c, best_size = enat (length c),
            best_family = Some ((xs @ [x]) ! i), best_coeffs = Some co, best_seam = sm\<rparr>"
        using i(1,3) same by (simp add: fold_snoc st_def nth_append)
      have "?some (xs @ [x])" using a b d min by blast
      then show ?thesis ..
    qed
  next
    case (Inr r)
    obtain c2 co2 sm2 where r: "r = (c2, co2, sm2)" by (cases r) auto
    have tx: "tr x = Inr (c2, co2, sm2)" using Inr r by simp
    have txs: "try_family B T data levels tf x = Inr (c2, co2, sm2)"
      using tx by (simp add: tr_def)
    let ?new = "\<lparr>best_compressed = Some c2, best_size = enat (length c2),
                 best_family = Some x, best_coeffs = Some co2, best_seam = sm2\<rparr>"
    from snoc.IH show ?thesis
    proof
      assume none: "?none xs"
      then have "enat (length c2) < best_size st"
        by (simp add: st_def best_init_def)
      then have new: "step x st = ?new"
        unfolding step_def using txs by (rule family_step_cases(2) [rotated])
      have min: "length c2 \<le> length c' \<and> (j < length xs \<longrightarrow> length c2 < length c')"
        if "j < length (xs @ [x])" "tr ((xs @ [x]) ! j) = Inr (c', co', sm')" for j c' co' sm'
      proof (cases "j < length xs")
        case True
        then have "xs ! j \<in> set xs" by simp
        then show ?thesis using that True none by (simp add: nth_append)
      next
        case False
        then have "j = length xs" using that(1) by simp
        then show ?thesis using that(2) tx by simp
      qed
      have a: "length xs < length (xs @ [x])" by simp
      have b: "tr ((xs @ [x]) ! length xs) = Inr (c2, co2, sm2)" using tx by simp
      have d: "fold step (xs @ [x]) best_init =
           \<lparr>best_compressed = Some c2, best_size = enat (length c2),
            best_family = Some ((xs @ [x]) ! length xs), best_coeffs = Some co2,
            best_seam = sm2\<rparr>"
        using new by (simp add: st_def)
      have "?some (xs @ [x])" using a b d min by blast
      then show ?thesis ..
    next
      assume "?some xs"
      then obtain i c co sm where i: "i < length xs" "tr (xs ! i) = Inr (c, co, sm)"
        "fold step xs best_init =
           \<lparr>best_compressed = Some c, best_size = enat (length c),
            best_family = Some (xs ! i), best_coeffs = Some co, best_seam = sm\<rparr>"
        "\<forall>j c' co' sm'. j < length xs \<longrightarrow> tr (xs ! j) = Inr (c', co', sm') \<longrightarrow>
            length c \<le> length c' \<and> (j < i \<longrightarrow> length c < length c')"
        by blast
      have size: "best_size st = enat (length c)"
        by (simp add: st_def i(3))
      show ?thesis
      proof (cases "length c2 < length c")
        case True
        then have "enat (length c2) < best_size st" by (simp add: size)
        then have new: "step x st = ?new"
          unfolding step_def using txs by (rule family_step_cases(2) [rotated])
        have min: "length c2 \<le> length c' \<and> (j < length xs \<longrightarrow> length c2 < length c')"
          if "j < length (xs @ [x])" "tr ((xs @ [x]) ! j) = Inr (c', co', sm')" for j c' co' sm'
        proof (cases "j < length xs")
          case lt: True
          then have "length c \<le> length c'"
            using that(2) i(4) by (simp add: nth_append)
          then show ?thesis using True by simp
        next
          case False
          then have "j = length xs" using that(1) by simp
          then show ?thesis using that(2) tx by simp
        qed
        have a: "length xs < length (xs @ [x])" by simp
        have b: "tr ((xs @ [x]) ! length xs) = Inr (c2, co2, sm2)" using tx by simp
        have d: "fold step (xs @ [x]) best_init =
             \<lparr>best_compressed = Some c2, best_size = enat (length c2),
              best_family = Some ((xs @ [x]) ! length xs), best_coeffs = Some co2,
              best_seam = sm2\<rparr>"
          using new by (simp add: st_def)
        have "?some (xs @ [x])" using a b d min by blast
        then show ?thesis ..
      next
        case False
        then have "\<not> enat (length c2) < best_size st" by (simp add: size)
        then have same: "step x st = st"
          unfolding step_def using txs by (rule family_step_cases(3) [rotated])
        have min: "length c \<le> length c' \<and> (j < i \<longrightarrow> length c < length c')"
          if "j < length (xs @ [x])" "tr ((xs @ [x]) ! j) = Inr (c', co', sm')" for j c' co' sm'
        proof (cases "j < length xs")
          case True
          then show ?thesis using that i(4) by (simp add: nth_append)
        next
          case nlt: False
          then have j: "j = length xs" using that(1) by simp
          then have "c' = c2" using that(2) tx by simp
          then show ?thesis using False j i(1) by simp
        qed
        have a: "i < length (xs @ [x])" using i(1) by simp
        have b: "tr ((xs @ [x]) ! i) = Inr (c, co, sm)" using i(1,2) by (simp add: nth_append)
        have d: "fold step (xs @ [x]) best_init =
             \<lparr>best_compressed = Some c, best_size = enat (length c),
              best_family = Some ((xs @ [x]) ! i), best_coeffs = Some co, best_seam = sm\<rparr>"
          using i(1,3) same by (simp add: fold_snoc st_def nth_append)
        have "?some (xs @ [x])" using a b d min by blast
        then show ?thesis ..
      qed
    qed
  qed
qed

lemma hybrid_compress_cases:
  "(hybrid_compress B T data families levels tf
      = Inl (RuntimeError ''No wavelet family succeeded'')
    \<and> (\<forall>f \<in> set families. \<forall>r. try_family B T data levels tf f \<noteq> Inr r))
   \<or> (\<exists>i c co sm. i < length families
        \<and> try_family B T data levels tf (families ! i) = Inr (c, co, sm)
        \<and> hybrid_compress B T data families levels tf = Inr (c, Some co, Some (families ! i))
        \<and> (\<forall>j c' co' sm'. j < length families \<longrightarrow>
              try_family B T data levels tf (families ! j) = Inr (c', co', sm') \<longrightarrow>
              length c \<le> length c' \<and> (j < i \<longrightarrow> length c < length c')))"
  using fold_family_step [of B T data levels tf families]
proof
  assume "fold (family_step B T data levels tf) families best_init = best_init
     \<and> (\<forall>f \<in> set families. \<forall>r. try_family B T data levels tf f \<noteq> Inr r)"
  then show ?thesis
    by (simp add: hybrid_compress_def Let_def best_init_def)
next
  assume "\<exists>i c co sm. i < length families
        \<and> try_family B T data levels tf (families ! i) = Inr (c, co, sm)
        \<and> fold (family_step B T data levels tf) families best_init =
             \<lparr>best_compressed = Some c, best_size = enat (length c),
              best_family = Some (families ! i), best_coeffs = Some co, best_seam = sm\<rparr>
        \<and> (\<forall>j c' co' sm'. j < length families \<longrightarrow>
              try_family B T data levels tf (families ! j) = Inr (c', co', sm') \<longrightarrow>
              length c \<le> length c' \<and> (j < i \<longrightarrow> length c < length c'))"
  then obtain i c co sm where i: "i < length families"
    "try_family B T data levels tf (families ! i) = Inr (c, co, sm)"
    "fold (family_step B T data levels tf) families best_init =
             \<lparr>best_compressed = Some c, best_size = enat (length c),
              best_family = Some (families ! i), best_coeffs = Some co, best_seam = sm\<rparr>"
    "\<forall>j c' co' sm'. j < length families \<longrightarrow>
              try_family B T data levels tf (families ! j) = Inr (c', co', sm') \<longrightarrow>
              length c \<le> length c' \<and> (j < i \<longrightarrow> length c < length c')"
    by blast
  have "hybrid_compress B T data families levels tf = Inr (c, Some co, Some (families ! i))"
    by (simp add: hybrid_compress_def Let_def i(3))
  then show ?thesis using i(1,2,4) by blast
qed

text \<open>
  C7. What \<open>hybrid_compress\<close> returns is the packed and compressed artifact of one of
  the candidate families that did not fail; no other such candidate has a smaller
  artifact, and every earlier one has a strictly larger artifact, so among candidates
  of equal size the first in the list wins.
\<close>

theorem hybrid_compress_selects_first_smallest:
  assumes "hybrid_compress B T data families levels tf = Inr (c, coeffs, fam)"
  shows "\<exists>i co sm. i < length families \<and> fam = Some (families ! i) \<and> coeffs = Some co
          \<and> try_family B T data levels tf (families ! i) = Inr (c, co, sm)
          \<and> (\<forall>j c' co' sm'. j < length families \<longrightarrow>
                try_family B T data levels tf (families ! j) = Inr (c', co', sm') \<longrightarrow>
                length c \<le> length c' \<and> (j < i \<longrightarrow> length c < length c'))"
  using hybrid_compress_cases [of B T data families levels tf]
proof
  assume "hybrid_compress B T data families levels tf
      = Inl (RuntimeError ''No wavelet family succeeded'')
    \<and> (\<forall>f \<in> set families. \<forall>r. try_family B T data levels tf f \<noteq> Inr r)"
  then show ?thesis using assms by simp
next
  assume "\<exists>i c co sm. i < length families
        \<and> try_family B T data levels tf (families ! i) = Inr (c, co, sm)
        \<and> hybrid_compress B T data families levels tf = Inr (c, Some co, Some (families ! i))
        \<and> (\<forall>j c' co' sm'. j < length families \<longrightarrow>
              try_family B T data levels tf (families ! j) = Inr (c', co', sm') \<longrightarrow>
              length c \<le> length c' \<and> (j < i \<longrightarrow> length c < length c'))"
  then obtain i c0 co sm where i: "i < length families"
    "try_family B T data levels tf (families ! i) = Inr (c0, co, sm)"
    "hybrid_compress B T data families levels tf = Inr (c0, Some co, Some (families ! i))"
    "\<forall>j c' co' sm'. j < length families \<longrightarrow>
              try_family B T data levels tf (families ! j) = Inr (c', co', sm') \<longrightarrow>
              length c0 \<le> length c' \<and> (j < i \<longrightarrow> length c0 < length c')"
    by blast
  have e: "c = c0" "coeffs = Some co" "fam = Some (families ! i)"
    using assms i(3) by simp_all
  show ?thesis
    using i(1,2,4) unfolding e by blast
qed

text \<open>
  C8. A family whose transform (or any later step of its candidate) fails is skipped and
  leaves the selection state unchanged; the selection succeeds, with one of the listed
  families, as soon as one candidate succeeds; it fails exactly when every candidate
  fails, and then with the error \<^verbatim>\<open>RuntimeError("No wavelet family succeeded")\<close>, the
  code's name for the spec's NoViableBasisError. No other outcome exists.
\<close>

theorem hybrid_compress_failure_handling:
  "(\<forall>f e st. try_family B T data levels tf f = Inl e \<longrightarrow>
       family_step B T data levels tf f st = st)
   \<and> ((\<exists>f \<in> set families. \<exists>r. try_family B T data levels tf f = Inr r) \<longrightarrow>
        (\<exists>c co fam. fam \<in> set families
           \<and> hybrid_compress B T data families levels tf = Inr (c, Some co, Some fam)))
   \<and> ((\<forall>f \<in> set families. \<exists>e. try_family B T data levels tf f = Inl e) \<longleftrightarrow>
        hybrid_compress B T data families levels tf
          = Inl (RuntimeError ''No wavelet family succeeded''))
   \<and> (\<forall>e. hybrid_compress B T data families levels tf = Inl e \<longrightarrow>
          e = RuntimeError ''No wavelet family succeeded'')"
proof -
  let ?fail = "hybrid_compress B T data families levels tf
      = Inl (RuntimeError ''No wavelet family succeeded'')"
  have skip: "\<forall>f e st. try_family B T data levels tf f = Inl e \<longrightarrow>
       family_step B T data levels tf f st = st"
    by (simp add: family_step_cases(1))
  have fails: "(\<forall>r. try_family B T data levels tf f \<noteq> Inr r)
      \<longleftrightarrow> (\<exists>e. try_family B T data levels tf f = Inl e)" for f
    by (cases "try_family B T data levels tf f") auto
  from hybrid_compress_cases [of B T data families levels tf]
  show ?thesis
  proof
    assume a: "?fail \<and> (\<forall>f \<in> set families. \<forall>r. try_family B T data levels tf f \<noteq> Inr r)"
    then have all: "\<forall>f \<in> set families. \<exists>e. try_family B T data levels tf f = Inl e"
      using fails by blast
    have none: "\<not> (\<exists>f \<in> set families. \<exists>r. try_family B T data levels tf f = Inr r)"
      using a by blast
    show ?thesis
      using skip a all none by simp
  next
    assume "\<exists>i c co sm. i < length families
        \<and> try_family B T data levels tf (families ! i) = Inr (c, co, sm)
        \<and> hybrid_compress B T data families levels tf = Inr (c, Some co, Some (families ! i))
        \<and> (\<forall>j c' co' sm'. j < length families \<longrightarrow>
              try_family B T data levels tf (families ! j) = Inr (c', co', sm') \<longrightarrow>
              length c \<le> length c' \<and> (j < i \<longrightarrow> length c < length c'))"
    then obtain i c co sm where i: "i < length families"
      "try_family B T data levels tf (families ! i) = Inr (c, co, sm)"
      "hybrid_compress B T data families levels tf = Inr (c, Some co, Some (families ! i))"
      by blast
    have mem: "families ! i \<in> set families" using i(1) by simp
    have ok: "\<exists>c co fam. fam \<in> set families
           \<and> hybrid_compress B T data families levels tf = Inr (c, Some co, Some fam)"
      using mem i(3) by blast
    have "\<not> (\<exists>e. try_family B T data levels tf (families ! i) = Inl e)"
      using i(2) by simp
    then have notall:
      "\<not> (\<forall>f \<in> set families. \<exists>e. try_family B T data levels tf f = Inl e)"
      using mem by blast
    have notfail: "\<not> ?fail" using i(3) by simp
    have noerr: "\<forall>e. hybrid_compress B T data families levels tf \<noteq> Inl e"
      using i(3) by simp
    show ?thesis
      using skip ok notall notfail noerr by simp
  qed
qed

lemma toy_wavedec:
  "wavedec toy_transform data ''bad'' levels = Inl TransformError"
  "wavedec toy_transform data ''db8'' levels = Inr [data, []]"
  "wavedec toy_transform data ''db4'' levels = Inr [data, []]"
  by (simp_all add: toy_transform_def)

lemma short_gain: "length data < 512 \<Longrightarrow> estimate_gain data < 0"
  by (simp add: estimate_gain_eq)

lemma toy_try_family:
  "try_family stored_backend toy_transform [0] 1 2 ''bad'' = Inl TransformError"
  "try_family stored_backend toy_transform [0] 1 2 ''db8''
     = Inr (CHR ''S'' # packed_text (CHR ''S'' # le4 0) [[]] None 1 ''db8'' 1, [[0], []], None)"
  "try_family stored_backend toy_transform [0] 1 2 ''db4''
     = Inr (CHR ''S'' # packed_text (CHR ''S'' # le4 0) [[]] None 1 ''db4'' 1, [[0], []], None)"
  by (simp_all add: try_family_def toy_wavedec rp2_compress_direct short_gain f32_round_simps
      f32_tobytes_def detail_threshold_def np_median_f64_def toy_transform_def
      pack_bytes_packed stored_backend_simps)

lemma packed_text_tie:
  "length (packed_text a ds sm n ''db4'' l) = length (packed_text a ds sm n ''db8'' l)"
  by (simp add: packed_text_def json_quote_def json_escape_char_def)

lemma toy_hybrid_compress:
  "hybrid_compress stored_backend toy_transform [0] [''bad'', ''db8'', ''db4''] 1 2
     = Inr (CHR ''S'' # packed_text (CHR ''S'' # le4 0) [[]] None 1 ''db8'' 1,
            Some [[0], []], Some ''db8'')"
  by (simp add: hybrid_compress_def Let_def family_step_def toy_try_family best_init_def
      packed_text_tie)

theorem hybrid_compress_selects_first_smallest_witness:
  "hybrid_compress stored_backend toy_transform [0] [''bad'', ''db8'', ''db4''] 1 2
     = Inr (CHR ''S'' # packed_text (CHR ''S'' # le4 0) [[]] None 1 ''db8'' 1,
            Some [[0], []], Some ''db8'')
   \<and> try_family stored_backend toy_transform [0] 1 2 ''db4''
     = Inr (CHR ''S'' # packed_text (CHR ''S'' # le4 0) [[]] None 1 ''db4'' 1, [[0], []], None)
   \<and> length (packed_text (CHR ''S'' # le4 0) [[]] None 1 ''db4'' 1)
     = length (packed_text (CHR ''S'' # le4 0) [[]] None 1 ''db8'' 1)
   \<and> (\<exists>i co sm. i < length [''bad'', ''db8'', ''db4'']
          \<and> Some ''db8'' = Some ([''bad'', ''db8'', ''db4''] ! i) \<and> Some [[0], []] = Some co
          \<and> try_family stored_backend toy_transform [0] 1 2 ([''bad'', ''db8'', ''db4''] ! i)
              = Inr (CHR ''S'' # packed_text (CHR ''S'' # le4 0) [[]] None 1 ''db8'' 1, co, sm)
          \<and> (\<forall>j c' co' sm'. j < length [''bad'', ''db8'', ''db4''] \<longrightarrow>
                try_family stored_backend toy_transform [0] 1 2 ([''bad'', ''db8'', ''db4''] ! j)
                  = Inr (c', co', sm') \<longrightarrow>
                length (CHR ''S'' # packed_text (CHR ''S'' # le4 0) [[]] None 1 ''db8'' 1)
                  \<le> length c'
                \<and> (j < i \<longrightarrow>
                     length (CHR ''S'' # packed_text (CHR ''S'' # le4 0) [[]] None 1 ''db8'' 1)
                       < length c')))"
  using hybrid_compress_selects_first_smallest [OF toy_hybrid_compress]
    toy_hybrid_compress toy_try_family(3) packed_text_tie
  by blast

theorem hybrid_compress_failure_handling_witness:
  "try_family stored_backend toy_transform [0] 1 2 ''bad'' = Inl TransformError
   \<and> (\<exists>f \<in> set [''bad'', ''db8'', ''db4''].
         \<exists>r. try_family stored_backend toy_transform [0] 1 2 f = Inr r)
   \<and> (\<exists>c co fam. fam \<in> set [''bad'', ''db8'', ''db4'']
         \<and> hybrid_compress stored_backend toy_transform [0] [''bad'', ''db8'', ''db4''] 1 2
             = Inr (c, Some co, Some fam))
   \<and> try_family stored_backend toy_transform [0] 1 2 ''nope'' = Inl TransformError
   \<and> hybrid_compress stored_backend toy_transform [0] [''bad'', ''nope''] 1 2
       = Inl (RuntimeError ''No wavelet family succeeded'')"
proof -
  have ok: "\<exists>f \<in> set [''bad'', ''db8'', ''db4''].
         \<exists>r. try_family stored_backend toy_transform [0] 1 2 f = Inr r"
    by (simp add: toy_try_family)
  have nope: "try_family stored_backend toy_transform [0] 1 2 ''nope'' = Inl TransformError"
    by (simp add: try_family_def toy_transform_def)
  then have bad: "\<forall>f \<in> set [''bad'', ''nope''].
      \<exists>e. try_family stored_backend toy_transform [0] 1 2 f = Inl e"
    by (simp add: toy_try_family)
  show ?thesis
    using hybrid_compress_failure_handling
        [of stored_backend toy_transform "[0]" 1 2 "[''bad'', ''db8'', ''db4'']"]
      hybrid_compress_failure_handling
        [of stored_backend toy_transform "[0]" 1 2 "[''bad'', ''nope'']"]
      ok bad nope toy_try_family(1)
    by blast
qed

subsection \<open>Decoding malformed blocks\<close>

lemma py_slice_numeral:
  "py_slice xs (numeral a) (numeral b) = take (numeral b - numeral a) (drop (numeral a) xs)"
  "py_slice_to xs (numeral b) = take (numeral b) xs"
  "py_slice_from xs (numeral a) = drop (numeral a) xs"
  using py_slice_nat [of xs "numeral a" "numeral b"] py_slice_to_nat [of xs "numeral b"]
    py_slice_from_nat [of xs "numeral a"]
  by simp_all

lemma length_rp2_header_text:
  "length (rp2_header_text m n l)
     = 39 + length (digits10 m) + length (digits10 n) + length (digits10 l)"
  by (simp add: rp2_header_text_def json_quote_keys)

lemma length_digits10_small: "n < 10 \<Longrightarrow> length (digits10 n) = 1"
  by (simp add: digits10.simps [of n])

lemma length_digits10_999999: "length (digits10 999999) = 6"
  by (simp add: digits10.simps)

lemma header_text_lengths:
  "length (rp2_header_text 0 0 0) = 42" "length (rp2_header_text 0 0 2) = 42"
  "length (rp2_header_text 2 4 999999) = 47"
  by (simp_all add: length_rp2_header_text length_digits10_small length_digits10_999999)

lemma split_long_prefix:
  "rp2_split (le4 1000 @ rp2_header_text 0 0 0) = Inr (rp2_header 0 0 0, [], [])"
proof -
  have h: "from_bytes_le (py_slice_to (le4 1000 @ rp2_header_text 0 0 0) 4) = 1000"
    by (simp add: py_slice_numeral length_le4 from_bytes_le_le4)
  have s: "py_slice (le4 1000 @ rp2_header_text 0 0 0) 4 1004 = rp2_header_text 0 0 0"
    by (simp add: py_slice_numeral length_le4 header_text_lengths)
  show ?thesis
    unfolding rp2_split_def h Let_def
    by (simp add: s py_decode_header json_loads_header header_fields py_as_int_def
        py_slice_numeral length_le4 header_text_lengths)
qed

lemma np_frombuffer_f32_empty: "np_frombuffer_f32 [] = Inr []"
  by (simp add: np_frombuffer_f32_def)

lemma decode_long_prefix:
  "rp2_decompress stored_backend (le4 1000 @ rp2_header_text 0 0 0) = Inr []"
  by (simp add: rp2_decompress_def split_long_prefix decompress_or_raise_def
      stored_backend_simps rp2_rebuild_def np_frombuffer_f32_empty np_sub_f32_def header_fields
      py_as_int_def py_slice_to_def)

lemma split_long_left:
  "rp2_split (le4 47 @ rp2_header_text 2 4 999999 @ CHR ''S'' # f32_tobytes [0x3F800000])
     = Inr (rp2_header 2 4 999999, CHR ''S'' # f32_tobytes [0x3F800000], [])"
proof -
  let ?b = "le4 47 @ rp2_header_text 2 4 999999 @ CHR ''S'' # f32_tobytes [0x3F800000]"
  have h: "from_bytes_le (py_slice_to ?b 4) = 47"
    by (simp add: py_slice_numeral length_le4 from_bytes_le_le4)
  have s: "py_slice ?b 4 51 = rp2_header_text 2 4 999999"
    by (simp add: py_slice_numeral length_le4 header_text_lengths)
  have l: "py_slice ?b 51 1000050 = CHR ''S'' # f32_tobytes [0x3F800000]"
    by (simp add: py_slice_numeral length_le4 header_text_lengths length_f32_tobytes)
  have d: "py_slice_from ?b 1000050 = []"
    by (simp add: py_slice_numeral length_le4 header_text_lengths length_f32_tobytes)
  show ?thesis
    unfolding rp2_split_def h Let_def
    by (simp add: s l d py_decode_header json_loads_header header_fields py_as_int_def)
qed

lemma decode_long_left:
  "rp2_decompress stored_backend
     (le4 47 @ rp2_header_text 2 4 999999 @ CHR ''S'' # f32_tobytes [0x3F800000])
   = Inr [0x3F800000]"
  by (simp add: rp2_decompress_def split_long_left decompress_or_raise_def
      stored_backend_simps rp2_rebuild_def np_frombuffer_f32_empty np_frombuffer_f32_tobytes
      np_sub_f32_def header_fields py_as_int_def py_slice_numeral py_slice_to_def clamp_index_def)

text \<open>
  C9, counterexample. \<open>rp2_decompress\<close> validates nothing: its slices clamp. With a
  backend that maps the empty stream to the empty output, as \<^verbatim>\<open>gzip.decompress\<close> does,
  a block of 46 bytes whose length prefix says 1000 decodes to the empty sequence, and
  a block of 56 bytes whose header declares 999999 bytes of left stream and four
  elements decodes to a single element; neither raises.
\<close>

theorem rp2_decompress_malformed_counterexample:
  "from_bytes_le (py_slice_to (le4 1000 @ rp2_header_text 0 0 0) 4) = 1000
   \<and> length (le4 1000 @ rp2_header_text 0 0 0) = 46
   \<and> rp2_decompress stored_backend (le4 1000 @ rp2_header_text 0 0 0) = Inr []
   \<and> rp2_split (le4 47 @ rp2_header_text 2 4 999999 @ CHR ''S'' # f32_tobytes [0x3F800000])
       = Inr (rp2_header 2 4 999999, CHR ''S'' # f32_tobytes [0x3F800000], [])
   \<and> length (le4 47 @ rp2_header_text 2 4 999999 @ CHR ''S'' # f32_tobytes [0x3F800000]) = 56
   \<and> rp2_decompress stored_backend
         (le4 47 @ rp2_header_text 2 4 999999 @ CHR ''S'' # f32_tobytes [0x3F800000])
       = Inr [0x3F800000]"
  by (simp add: decode_long_prefix split_long_left decode_long_left py_slice_numeral length_le4
      from_bytes_le_le4 header_text_lengths length_f32_tobytes)

text \<open>
  C9 (as amended). Decoding a symmetric block fails whenever the header slice does not
  parse into a record with an integer \<open>left_c_len\<close>, and fails with the backend's error
  whenever the backend cannot decompress one of the two sliced streams; a sequence is
  returned only when it was rebuilt from a parsed header and two decompressed streams,
  never a default. The header and the streams are cut with Python's clamping slices, so
  a length prefix or a \<open>left_c_len\<close> beyond the buffer is not an error by itself.
\<close>

theorem rp2_decompress_failures:
  "(\<forall>xs. rp2_decompress B block = Inr xs \<longrightarrow>
      (\<exists>header c_left c_delta left_b delta_b.
         rp2_split block = Inr (header, c_left, c_delta)
         \<and> bk_decompress B c_left = Some left_b \<and> bk_decompress B c_delta = Some delta_b
         \<and> rp2_rebuild header left_b delta_b = Inr xs))
   \<and> (\<forall>header c_left c_delta. rp2_split block = Inr (header, c_left, c_delta) \<longrightarrow>
        bk_decompress B c_left = None \<or> bk_decompress B c_delta = None \<longrightarrow>
        rp2_decompress B block = Inl BackendError)
   \<and> (\<forall>e. rp2_split block = Inl e \<longrightarrow> rp2_decompress B block = Inl e)
   \<and> (\<forall>header c_left c_delta. rp2_split block = Inr (header, c_left, c_delta) \<longrightarrow>
        (\<exists>text v l.
           py_decode (py_slice block 4 (4 + int (from_bytes_le (py_slice_to block 4)))) = Inr text
           \<and> json_loads text = Inr header
           \<and> py_getitem header ''left_c_len'' = Inr v \<and> py_as_int v = Inr l
           \<and> c_left = py_slice block (4 + int (from_bytes_le (py_slice_to block 4)))
                          (4 + int (from_bytes_le (py_slice_to block 4)) + l)
           \<and> c_delta = py_slice_from block (4 + int (from_bytes_le (py_slice_to block 4)) + l)))"
proof (intro conjI allI impI)
  fix xs
  assume "rp2_decompress B block = Inr xs"
  then show "\<exists>header c_left c_delta left_b delta_b.
         rp2_split block = Inr (header, c_left, c_delta)
         \<and> bk_decompress B c_left = Some left_b \<and> bk_decompress B c_delta = Some delta_b
         \<and> rp2_rebuild header left_b delta_b = Inr xs"
    by (auto simp: rp2_decompress_def decompress_or_raise_def
        split: sum.splits option.splits prod.splits)
next
  fix header c_left c_delta
  assume "rp2_split block = Inr (header, c_left, c_delta)"
    "bk_decompress B c_left = None \<or> bk_decompress B c_delta = None"
  then show "rp2_decompress B block = Inl BackendError"
    by (auto simp: rp2_decompress_def decompress_or_raise_def split: option.splits)
next
  fix e
  assume "rp2_split block = Inl e"
  then show "rp2_decompress B block = Inl e"
    by (simp add: rp2_decompress_def)
next
  fix header c_left c_delta
  assume "rp2_split block = Inr (header, c_left, c_delta)"
  then show "\<exists>text v l.
           py_decode (py_slice block 4 (4 + int (from_bytes_le (py_slice_to block 4)))) = Inr text
           \<and> json_loads text = Inr header
           \<and> py_getitem header ''left_c_len'' = Inr v \<and> py_as_int v = Inr l
           \<and> c_left = py_slice block (4 + int (from_bytes_le (py_slice_to block 4)))
                          (4 + int (from_bytes_le (py_slice_to block 4)) + l)
           \<and> c_delta = py_slice_from block (4 + int (from_bytes_le (py_slice_to block 4)) + l)"
    by (auto simp: rp2_split_def Let_def split: sum.splits)
qed

lemma split_bad_stream:
  "rp2_split (le4 42 @ rp2_header_text 0 0 2 @ ''XY'') = Inr (rp2_header 0 0 2, ''XY'', [])"
proof -
  have l: "length ''XY'' = 2" by simp
  have "length (rp2_header_text 0 0 2) < 2 ^ 32"
    by (simp add: header_text_lengths)
  from rp2_split_framed [of 0 0 "''XY''" "[]", unfolded l, OF this]
  show ?thesis by (simp only: header_text_lengths append_Nil2)
qed

lemma split_empty: "rp2_split [] = Inl JSONDecodeError"
  by (simp add: rp2_split_def py_slice_to_def py_slice_def py_decode_def json_loads_def
      skip_ws_simps)

theorem rp2_decompress_failures_witness:
  "rp2_split (le4 42 @ rp2_header_text 0 0 2 @ ''XY'') = Inr (rp2_header 0 0 2, ''XY'', [])
   \<and> bk_decompress stored_backend ''XY'' = None
   \<and> rp2_decompress stored_backend (le4 42 @ rp2_header_text 0 0 2 @ ''XY'') = Inl BackendError
   \<and> rp2_split [] = Inl JSONDecodeError
   \<and> rp2_decompress stored_backend [] = Inl JSONDecodeError
   \<and> rp2_decompress stored_backend (le4 1000 @ rp2_header_text 0 0 0) = Inr []
   \<and> rp2_split (le4 1000 @ rp2_header_text 0 0 0) = Inr (rp2_header 0 0 0, [], [])
   \<and> bk_decompress stored_backend [] = Some []
   \<and> rp2_rebuild (rp2_header 0 0 0) [] [] = Inr []"
proof -
  have x: "bk_decompress stored_backend ''XY'' = None"
    by (simp add: stored_backend_simps)
  have a: "rp2_decompress stored_backend (le4 42 @ rp2_header_text 0 0 2 @ ''XY'')
      = Inl BackendError"
    using rp2_decompress_failures [of stored_backend "le4 42 @ rp2_header_text 0 0 2 @ ''XY''"]
      split_bad_stream x by blast
  have b: "rp2_decompress stored_backend [] = Inl JSONDecodeError"
    using rp2_decompress_failures [of stored_backend "[]"] split_empty by blast
  have c: "rp2_rebuild (rp2_header 0 0 0) [] [] = Inr []"
    using rp2_decompress_failures [of stored_backend "le4 1000 @ rp2_header_text 0 0 0"]
      decode_long_prefix split_long_prefix
    by (auto simp: stored_backend_simps)
  show ?thesis
    using split_bad_stream x a split_empty b decode_long_prefix split_long_prefix c
    by (simp add: stored_backend_simps)
qed

subsection \<open>Strings through JSON\<close>

lemma hex_val_hex_digit: "d < 16 \<Longrightarrow> hex_val (hex_digit d) = Some d"
  by (auto simp: hex_val_def hex_digit_def Let_def of_char_of)

lemma hex4_byte:
  assumes "n < 256"
  shows "hex4 [CHR ''0'', CHR ''0'', hex_digit (n div 16), hex_digit (n mod 16)] = Some n"
proof -
  have "n div 16 < 16" "n mod 16 < 16" using assms by simp_all
  then have "hex_val (hex_digit (n div 16)) = Some (n div 16)"
    "hex_val (hex_digit (n mod 16)) = Some (n mod 16)"
    by (simp_all add: hex_val_hex_digit)
  moreover have "hex_val CHR ''0'' = Some 0" by (simp add: hex_val_def)
  ultimately show ?thesis by (simp add: hex4_def)
qed

lemma of_char_less_256: "(of_char c :: nat) < 256"
proof -
  have "(of_char c :: nat) = of_char (char_of (of_char c :: nat))" by simp
  also have "\<dots> = (of_char c :: nat) mod 256" by (simp only: of_char_of)
  finally have "(of_char c :: nat) = (of_char c :: nat) mod 256" .
  then show ?thesis by (metis mod_less_divisor zero_less_numeral)
qed

lemma parse_string_escape:
  "parse_string (json_escape_char c @ cs) =
     (case parse_string cs of Inl x \<Rightarrow> Inl x | Inr (s, r) \<Rightarrow> Inr (c # s, r))"
proof -
  have u: "parse_string (CHR 0x5C # CHR ''u'' # CHR ''0'' # CHR ''0''
              # hex_digit (of_char c div 16) # hex_digit (of_char c mod 16) # cs)
      = (case parse_string cs of Inl x \<Rightarrow> Inl x | Inr (s, r) \<Rightarrow> Inr (c # s, r))"
    using hex4_byte [OF of_char_less_256 [of c]] of_char_less_256 [of c]
    by (cases "parse_string cs") (auto split: prod.splits)
  consider (esc) "c = CHR 0x22 \<or> c = CHR 0x5C \<or> c = CHR 0x0A \<or> c = CHR 0x0D \<or> c = CHR 0x09
        \<or> c = CHR 0x08 \<or> c = CHR 0x0C"
    | (uni) "\<not> (c = CHR 0x22 \<or> c = CHR 0x5C \<or> c = CHR 0x0A \<or> c = CHR 0x0D \<or> c = CHR 0x09
        \<or> c = CHR 0x08 \<or> c = CHR 0x0C)" "(of_char c :: nat) < 32 \<or> 127 \<le> (of_char c :: nat)"
    | (plain) "c \<noteq> CHR 0x22" "c \<noteq> CHR 0x5C" "32 \<le> (of_char c :: nat)"
        "(of_char c :: nat) < 127"
        "\<not> (c = CHR 0x0A \<or> c = CHR 0x0D \<or> c = CHR 0x09 \<or> c = CHR 0x08 \<or> c = CHR 0x0C)"
    by fastforce
  then show ?thesis
  proof cases
    case esc
    then show ?thesis
      by (auto simp: json_escape_char_def unescape_def)
  next
    case uni
    then show ?thesis
      using u by (simp add: json_escape_char_def)
  next
    case plain
    then show ?thesis
      by (simp add: json_escape_char_def)
  qed
qed

lemma parse_string_quoted:
  "parse_string (concat (map json_escape_char s) @ CHR 0x22 # rest) = Inr (s, rest)"
  by (induction s) (simp_all add: parse_string_escape)

lemma parse_value_string:
  "parse_value (Suc k) (json_quote s @ rest) = Inr (PStr s, rest)"
  by (simp add: json_quote_def parse_string_quoted)

lemma skip_ws_quote: "skip_ws (json_quote s @ rest) = json_quote s @ rest"
  by (simp add: json_quote_def skip_ws_simps is_ws_simps)

lemma skip_ws_py_str_int: "skip_ws (py_str_int i @ rest) = py_str_int i @ rest"
  by (simp add: py_str_int_def skip_ws_simps skip_ws_digits10 is_ws_def)

lemma parse_value_null: "parse_value (Suc k) (''null'' @ rest) = Inr (PNone, rest)"
  by simp

lemma parse_value_int:
  assumes "\<not> is_digit c" "c \<noteq> CHR ''.''" "c \<noteq> CHR ''e''" "c \<noteq> CHR ''E''"
  shows "parse_value (Suc k) (py_str_int i @ c # rest) = Inr (PInt i, c # rest)"
proof (cases "i < 0")
  case False
  then show ?thesis
    using parse_value_digits10 [OF assms, of k "nat i" rest] by (simp add: py_str_int_def)
next
  case True
  define n where "n = nat (- i)"
  have tw: "takeWhile is_digit (digits10 n @ c # rest) = digits10 n"
    using assms(1) digits10_digits by (simp add: takeWhile_append2)
  have dw: "dropWhile is_digit (digits10 n @ c # rest) = c # rest"
    using assms(1) digits10_digits by (simp add: dropWhile_append2)
  have "parse_number (CHR ''-'' # digits10 n @ c # rest) = Inr (PInt (- int n), c # rest)"
    using assms digits10_leading [of n] digits10_nonempty [of n]
    by (simp add: parse_number_def Let_def tw dw nat_of_digits_digits10)
  moreover have "parse_value (Suc k) (CHR ''-'' # digits10 n @ c # rest)
      = parse_number (CHR ''-'' # digits10 n @ c # rest)"
    by simp
  ultimately show ?thesis
    using True by (simp add: py_str_int_def n_def)
qed

lemma parse_elems_strings:
  "parse_elems (Suc (Suc (length ss + k))) acc
       (join_comma (json_quote s # map json_quote ss) @ CHR '']'' # rest)
     = Inr (PList (acc @ map PStr (s # ss)), rest)"
proof (induction ss arbitrary: s acc)
  case Nil
  then show ?case
    by (simp add: parse_value_string skip_ws_simps is_ws_def del: parse_value.simps)
next
  case (Cons t ts)
  have "parse_elems (Suc (Suc (length (t # ts) + k))) acc
       (join_comma (json_quote s # json_quote t # map json_quote ts) @ CHR '']'' # rest)
     = parse_elems (Suc (Suc (length ts + k))) (acc @ [PStr s])
       (join_comma (json_quote t # map json_quote ts) @ CHR '']'' # rest)"
    using skip_ws_quote [of t]
    by (cases ts)
      (simp_all add: parse_value_string skip_ws_simps is_ws_def skip_ws_quote
        del: parse_value.simps)
  then show ?case
    by (simp add: Cons.IH del: parse_elems.simps)
qed

lemma parse_value_string_list:
  "parse_value (Suc (Suc (Suc (length ss + k))))
       (CHR ''['' # join_comma (map json_quote ss) @ CHR '']'' # rest)
     = Inr (PList (map PStr ss), rest)"
proof (cases ss)
  case Nil
  then show ?thesis by (simp add: skip_ws_simps is_ws_def)
next
  case (Cons s ts)
  have q: "skip_ws (join_comma (json_quote s # map json_quote ts) @ CHR '']'' # rest)
      = join_comma (json_quote s # map json_quote ts) @ CHR '']'' # rest"
    by (cases ts) (simp_all add: skip_ws_quote)
  have n: "take 1 (join_comma (json_quote s # map json_quote ts) @ CHR '']'' # rest) \<noteq> '']''"
    by (cases ts) (simp_all add: json_quote_def)
  have "parse_elems (Suc (Suc (length ts + Suc k))) []
       (join_comma (json_quote s # map json_quote ts) @ CHR '']'' # rest)
     = Inr (PList ([] @ map PStr (s # ts)), rest)"
    by (rule parse_elems_strings)
  then show ?thesis
    using q n by (simp add: Cons del: parse_elems.simps)
qed

subsection \<open>The packed record through JSON\<close>

lemma json_quote_packed_keys:
  "json_quote ''approx'' = CHR 0x22 # ''approx'' @ [CHR 0x22]"
  "json_quote ''details'' = CHR 0x22 # ''details'' @ [CHR 0x22]"
  "json_quote ''seam'' = CHR 0x22 # ''seam'' @ [CHR 0x22]"
  "json_quote ''wavelet'' = CHR 0x22 # ''wavelet'' @ [CHR 0x22]"
  "json_quote ''levels'' = CHR 0x22 # ''levels'' @ [CHR 0x22]"
  by (simp_all add: json_quote_def json_escape_char_def)

lemma seam_text_parse:
  "parse_value (Suc k) ((case seam of None \<Rightarrow> ''null'' | Some mid \<Rightarrow> digits10 mid) @ CHR '','' # rest)
     = Inr ((case seam of None \<Rightarrow> PNone | Some mid \<Rightarrow> PInt (int mid)), CHR '','' # rest)"
  by (cases seam) (simp_all add: parse_value_digits10 not_digit_delims del: parse_value.simps,
      simp)

lemma skip_ws_seam_text:
  "skip_ws ((case seam of None \<Rightarrow> ''null'' | Some mid \<Rightarrow> digits10 mid) @ rest)
     = (case seam of None \<Rightarrow> ''null'' | Some mid \<Rightarrow> digits10 mid) @ rest"
  by (cases seam) (simp_all add: skip_ws_simps is_ws_def skip_ws_digits10)

lemma parse_packed:
  "parse_value (Suc (Suc (Suc (Suc (Suc (Suc (Suc (Suc (length details + k)))))))))
       (packed_text approx_comp details seam orig_len family levels @ rest)
     = Inr (PDict [(''approx'', PStr (py_bytes_repr approx_comp)),
                   (''details'', PList (map (\<lambda>d. PStr (py_bytes_repr d)) details)),
                   (''seam'', (case seam of None \<Rightarrow> PNone | Some mid \<Rightarrow> PInt (int mid))),
                   (''orig_len'', PInt (int orig_len)),
                   (''wavelet'', PStr family),
                   (''levels'', PInt levels)], rest)"
proof -
  have l: "parse_value (Suc (Suc (Suc (Suc (Suc (length details + k))))))
       (CHR ''['' # join_comma (map (\<lambda>d. json_quote (py_bytes_repr d)) details) @ CHR '']'' # r)
     = Inr (PList (map (\<lambda>d. PStr (py_bytes_repr d)) details), r)" for r
    using parse_value_string_list [of "map py_bytes_repr details" "Suc (Suc k)" r]
    by (simp add: o_def del: parse_value.simps)
  show ?thesis
    by (simp add: packed_text_def json_quote_packed_keys json_quote_keys skip_ws_simps
        is_ws_def skip_ws_quote skip_ws_digits10 skip_ws_py_str_int skip_ws_seam_text
        parse_value_string parse_value_object parse_value_digits10 parse_value_int
        seam_text_parse not_digit_delims l
        del: parse_value.simps)
qed


lemma length_join_comma:
  "\<forall>t \<in> set ts. t \<noteq> [] \<Longrightarrow> length ts \<le> length (join_comma ts)"
proof (induction ts rule: join_comma.induct)
  case 1
  show ?case by simp
next
  case (2 t)
  then show ?case by (cases t) simp_all
next
  case (3 t u us)
  then show ?case by simp
qed

lemma length_packed_text:
  "length details + 8 \<le> length (packed_text approx_comp details seam orig_len family levels)"
proof -
  have "length (map (\<lambda>d. json_quote (py_bytes_repr d)) details)
        \<le> length (join_comma (map (\<lambda>d. json_quote (py_bytes_repr d)) details))"
    by (rule length_join_comma) (auto simp: json_quote_def)
  then show ?thesis
    by (simp add: packed_text_def json_quote_packed_keys json_quote_keys)
qed

lemma skip_ws_packed_text:
  "skip_ws (packed_text approx_comp details seam orig_len family levels)
     = packed_text approx_comp details seam orig_len family levels"
  by (simp add: packed_text_def skip_ws_simps is_ws_simps)

lemma json_loads_packed:
  "json_loads (packed_text approx_comp details seam orig_len family levels)
     = Inr (PDict [(''approx'', PStr (py_bytes_repr approx_comp)),
                   (''details'', PList (map (\<lambda>d. PStr (py_bytes_repr d)) details)),
                   (''seam'', (case seam of None \<Rightarrow> PNone | Some mid \<Rightarrow> PInt (int mid))),
                   (''orig_len'', PInt (int orig_len)),
                   (''wavelet'', PStr family),
                   (''levels'', PInt levels)])"
proof -
  define k where
    "k = 2 * length (packed_text approx_comp details seam orig_len family levels) + 2 - 8
           - length details"
  have k: "2 * length (packed_text approx_comp details seam orig_len family levels) + 2
      = Suc (Suc (Suc (Suc (Suc (Suc (Suc (Suc (length details + k))))))))"
    using length_packed_text [of details approx_comp seam orig_len family levels]
    unfolding k_def by linarith
  have "parse_value (2 * length (packed_text approx_comp details seam orig_len family levels) + 2)
          (packed_text approx_comp details seam orig_len family levels @ [])
      = Inr (PDict [(''approx'', PStr (py_bytes_repr approx_comp)),
                   (''details'', PList (map (\<lambda>d. PStr (py_bytes_repr d)) details)),
                   (''seam'', (case seam of None \<Rightarrow> PNone | Some mid \<Rightarrow> PInt (int mid))),
                   (''orig_len'', PInt (int orig_len)),
                   (''wavelet'', PStr family),
                   (''levels'', PInt levels)], [])"
    unfolding k by (rule parse_packed)
  then show ?thesis
    by (simp add: json_loads_def skip_ws_packed_text skip_ws_simps)
qed

lemma ascii_hex_digit: "d < 16 \<Longrightarrow> (of_char (hex_digit d) :: nat) < 128"
  by (simp add: hex_digit_def of_char_of)

lemma ascii_json_escape_char:
  "list_all (\<lambda>c. (of_char c :: nat) < 128) (json_escape_char c)"
proof -
  have "n div 16 < 16" if "n < 256" for n :: nat
    using that by simp
  then have "(of_char c :: nat) div 16 < 16"
    using of_char_less_256 [of c] by blast
  moreover have "(of_char c :: nat) mod 16 < 16" by simp
  ultimately show ?thesis
    by (simp add: json_escape_char_def ascii_hex_digit)
qed

lemma ascii_json_quote: "list_all (\<lambda>c. (of_char c :: nat) < 128) (json_quote s)"
  by (induction s) (simp_all add: json_quote_def ascii_json_escape_char)

lemma ascii_join_comma:
  "\<forall>t \<in> set ts. list_all (\<lambda>c. (of_char c :: nat) < 128) t
     \<Longrightarrow> list_all (\<lambda>c. (of_char c :: nat) < 128) (join_comma ts)"
  by (induction ts rule: join_comma.induct) simp_all

lemma ascii_py_str_int: "list_all (\<lambda>c. (of_char c :: nat) < 128) (py_str_int i)"
  by (simp add: py_str_int_def ascii_digits10)

lemma py_decode_packed:
  "py_decode (packed_text approx_comp details seam orig_len family levels)
     = Inr (packed_text approx_comp details seam orig_len family levels)"
proof -
  have "list_all (\<lambda>c. (of_char c :: nat) < 128)
          (join_comma (map (\<lambda>d. json_quote (py_bytes_repr d)) details))"
    by (rule ascii_join_comma) (simp add: ascii_json_quote)
  then show ?thesis
    by (cases seam)
      (simp_all add: py_decode_def packed_text_def ascii_json_quote ascii_digits10
        ascii_py_str_int)
qed

lemma hybrid_unpack_packed:
  assumes "lossless B"
  shows "hybrid_unpack B (bk_compress B (packed_text approx_comp details seam orig_len family levels))
     = Inr (PDict [(''approx'', PStr (py_bytes_repr approx_comp)),
                   (''details'', PList (map (\<lambda>d. PStr (py_bytes_repr d)) details)),
                   (''seam'', (case seam of None \<Rightarrow> PNone | Some mid \<Rightarrow> PInt (int mid))),
                   (''orig_len'', PInt (int orig_len)),
                   (''wavelet'', PStr family),
                   (''levels'', PInt levels)])"
  using assms
  by (simp add: hybrid_unpack_def decompress_or_raise_def lossless_def py_decode_packed
      json_loads_packed)

lemma hybrid_decompress_packed:
  assumes "lossless B"
  shows "hybrid_decompress B T
           (bk_compress B (packed_text approx_comp details seam orig_len family levels))
         = Inl TypeError"
  by (simp add: hybrid_decompress_def hybrid_unpack_packed [OF assms] py_getitem_def
      hybrid_approx_def)

lemma try_family_packed:
  assumes "try_family B T data levels tf family = Inr (c, co, sm)"
  shows "\<exists>approx_comp details.
           c = bk_compress B (packed_text approx_comp details sm (length data) family levels)
           \<and> pack_bytes B (packed_dict approx_comp details sm (length data) family levels) = Inr c"
  using assms
  by (auto simp: try_family_def Let_def pack_bytes_packed split: sum.splits list.splits)

lemma packed_dict_neq:
  "PDict [(''approx'', PStr a), (''details'', ds), (''seam'', s), (''orig_len'', n),
          (''wavelet'', w), (''levels'', l)]
     \<noteq> packed_dict approx_comp details seam orig_len family levels"
  by (simp add: packed_dict_def)

text \<open>
  C5. Unpacking does not invert packing. \<^verbatim>\<open>json.dumps\<close> cannot write a bytes object and
  hands each one to the \<^verbatim>\<open>default\<close> hook, which returns \<^verbatim>\<open>str(o)\<close>: the artifact holds
  the text \<^verbatim>\<open>b'...'\<close> of the approximation block and of every detail buffer, and
  \<^verbatim>\<open>json.loads\<close> gives these texts back as strings. With a lossless outer compressor,
  every artifact that \<^verbatim>\<open>hybrid_compress\<close> returns unpacks to a record whose \<open>seam\<close>,
  \<open>orig_len\<close>, \<open>wavelet\<close> and \<open>levels\<close> are the packed ones, whose \<open>approx\<close> and \<open>details\<close>
  are strings and not the packed bytes, and \<^verbatim>\<open>hybrid_decompress\<close> raises TypeError on
  it, whatever the signal.
\<close>

theorem hybrid_decompress_of_compress:
  assumes "lossless B"
    and "hybrid_compress B T data families levels thresh_factor = Inr (compressed, coeffs, family)"
  shows "hybrid_decompress B T' compressed = Inl TypeError
         \<and> (\<exists>approx_comp details seam fam.
               family = Some fam
               \<and> pack_bytes B (packed_dict approx_comp details seam (length data) fam levels)
                   = Inr compressed
               \<and> hybrid_unpack B compressed
                   = Inr (PDict [(''approx'', PStr (py_bytes_repr approx_comp)),
                                 (''details'', PList (map (\<lambda>d. PStr (py_bytes_repr d)) details)),
                                 (''seam'', (case seam of None \<Rightarrow> PNone
                                             | Some mid \<Rightarrow> PInt (int mid))),
                                 (''orig_len'', PInt (int (length data))),
                                 (''wavelet'', PStr fam),
                                 (''levels'', PInt levels)])
               \<and> hybrid_unpack B compressed
                   \<noteq> Inr (packed_dict approx_comp details seam (length data) fam levels))"
proof -
  from hybrid_compress_cases [of B T data families levels thresh_factor] assms(2)
  obtain i c co sm where i:
    "try_family B T data levels thresh_factor (families ! i) = Inr (c, co, sm)"
    "hybrid_compress B T data families levels thresh_factor
       = Inr (c, Some co, Some (families ! i))"
    by auto
  from i(2) assms(2) have c: "compressed = c" and fam: "family = Some (families ! i)"
    by simp_all
  from try_family_packed [OF i(1)] obtain approx_comp details where p:
    "c = bk_compress B (packed_text approx_comp details sm (length data) (families ! i) levels)"
    "pack_bytes B (packed_dict approx_comp details sm (length data) (families ! i) levels) = Inr c"
    by blast
  have d: "hybrid_decompress B T' compressed = Inl TypeError"
    unfolding c p(1) using assms(1) by (rule hybrid_decompress_packed)
  have u: "hybrid_unpack B compressed
      = Inr (PDict [(''approx'', PStr (py_bytes_repr approx_comp)),
                    (''details'', PList (map (\<lambda>d. PStr (py_bytes_repr d)) details)),
                    (''seam'', (case sm of None \<Rightarrow> PNone | Some mid \<Rightarrow> PInt (int mid))),
                    (''orig_len'', PInt (int (length data))),
                    (''wavelet'', PStr (families ! i)),
                    (''levels'', PInt levels)])"
    unfolding c p(1) using assms(1) by (rule hybrid_unpack_packed)
  have n: "hybrid_unpack B compressed
      \<noteq> Inr (packed_dict approx_comp details sm (length data) (families ! i) levels)"
    unfolding u by (simp add: packed_dict_neq)
  show ?thesis
    using d fam p(2) u n unfolding c by blast
qed

theorem hybrid_decompress_of_compress_witness:
  "lossless stored_backend
   \<and> hybrid_compress stored_backend toy_transform [0] [''bad'', ''db8'', ''db4''] 1 2
       = Inr (CHR ''S'' # packed_text (CHR ''S'' # le4 0) [[]] None 1 ''db8'' 1,
              Some [[0], []], Some ''db8'')
   \<and> hybrid_decompress stored_backend toy_transform
         (CHR ''S'' # packed_text (CHR ''S'' # le4 0) [[]] None 1 ''db8'' 1)
       = Inl TypeError"
  using hybrid_decompress_of_compress [OF lossless_stored_backend toy_hybrid_compress]
    lossless_stored_backend toy_hybrid_compress
  by simp

end
